theory Spec2Isabelle
  imports Main
begin

section \<open>Python values\<close>

text \<open>
  The pipeline passes JSON documents around as Python dictionaries and lists.
  \<open>JFloat m e\<close> stands for the finite decimal \<open>m * 10^e\<close>; the non-finite floats that
  Python's \<open>json\<close> module also accepts are not represented.  A dictionary is an
  association list in which the first binding of a key is the one that counts.
\<close>

datatype json =
    JNull
  | JBool bool
  | JInt int
  | JFloat int int
  | JStr string
  | JList "json list"
  | JObj "(string \<times> json) list"

type_synonym dict = "(string \<times> json) list"

text \<open>The exceptions (all subclasses of Python's \<open>Exception\<close>) that the modelled code can meet.\<close>

datatype exn =
    LLMClientError string
  | JSONDecodeError string nat
  | ValueError string
  | ValidationError string
  | KeyError string
  | IndexError
  | TypeError
  | AttributeError
  | FileNotFoundError string
  | TemplateError string

text \<open>\<open>d.get(k, default)\<close> on a dictionary.\<close>

definition dict_get :: "dict \<Rightarrow> string \<Rightarrow> json \<Rightarrow> json" where
  "dict_get d k dflt = (case map_of d k of Some v \<Rightarrow> v | None \<Rightarrow> dflt)"

text \<open>\<open>x.get(k, default)\<close> on any value: only a dictionary has the method.\<close>

fun py_get :: "json \<Rightarrow> string \<Rightarrow> json \<Rightarrow> exn + json" where
  "py_get (JObj d) k dflt = Inr (dict_get d k dflt)"
| "py_get _ k dflt = Inl AttributeError"

text \<open>\<open>x[k]\<close> with a string key: a missing key of a dictionary raises \<open>KeyError\<close>, and
  no other JSON value can be subscripted by a string.\<close>

fun py_getitem :: "json \<Rightarrow> string \<Rightarrow> exn + json" where
  "py_getitem (JObj d) k = (case map_of d k of Some v \<Rightarrow> Inr v | None \<Rightarrow> Inl (KeyError k))"
| "py_getitem _ k = Inl TypeError"

text \<open>\<open>for x in v\<close>: a list yields its elements, a dictionary its keys, a string its
  characters; every other JSON value is not iterable.\<close>

fun py_iter :: "json \<Rightarrow> exn + json list" where
  "py_iter (JList xs) = Inr xs"
| "py_iter (JObj d) = Inr (map JStr (remdups (map fst d)))"
| "py_iter (JStr s) = Inr (map (\<lambda>c. JStr [c]) s)"
| "py_iter _ = Inl TypeError"

text \<open>\<open>len(v)\<close>.\<close>

fun py_len :: "json \<Rightarrow> exn + nat" where
  "py_len (JList xs) = Inr (length xs)"
| "py_len (JObj d) = Inr (length (remdups (map fst d)))"
| "py_len (JStr s) = Inr (length s)"
| "py_len _ = Inl TypeError"

text \<open>Truth value of a JSON value, as \<open>if v:\<close> tests it.\<close>

fun py_truthy :: "json \<Rightarrow> bool" where
  "py_truthy JNull = False"
| "py_truthy (JBool b) = b"
| "py_truthy (JInt i) = (i \<noteq> 0)"
| "py_truthy (JFloat m e) = (m \<noteq> 0)"
| "py_truthy (JStr s) = (s \<noteq> [])"
| "py_truthy (JList xs) = (xs \<noteq> [])"
| "py_truthy (JObj d) = (d \<noteq> [])"

text \<open>Sequencing of computations that may raise.\<close>

definition ebind :: "exn + 'a \<Rightarrow> ('a \<Rightarrow> exn + 'b) \<Rightarrow> exn + 'b" where
  "ebind m f = (case m of Inl e \<Rightarrow> Inl e | Inr x \<Rightarrow> f x)"

text \<open>A list comprehension \<open>[f(x) for x in xs]\<close> whose body may raise: the first
  exception, in list order, ends it.\<close>

fun emap :: "('a \<Rightarrow> exn + 'b) \<Rightarrow> 'a list \<Rightarrow> exn + 'b list" where
  "emap f [] = Inr []"
| "emap f (x # xs) =
     (case f x of Inl e \<Rightarrow> Inl e
      | Inr y \<Rightarrow> (case emap f xs of Inl e \<Rightarrow> Inl e | Inr ys \<Rightarrow> Inr (y # ys)))"


section \<open>Job summary: counting categories and items (\<open>api/routes/jobs.py\<close>)\<close>

text \<open>
  \<open>get_job\<close> walks the job's stored document.  The two inner loops of a category add
  \<open>len(group.get("items", []))\<close> to \<open>item_count\<close> for every group of
  \<open>category_items\<close> and then for every group of \<open>subcategory_items\<close>.
\<close>

fun count_groups :: "json list \<Rightarrow> nat \<Rightarrow> exn + nat" where
  "count_groups [] item_count = Inr item_count"
| "count_groups (g # gs) item_count =
     ebind (py_get g ''items'' (JList [])) (\<lambda>items.
     ebind (py_len items) (\<lambda>n.
     count_groups gs (item_count + n)))"

definition count_category :: "json \<Rightarrow> nat \<Rightarrow> exn + nat" where
  "count_category cat item_count =
     ebind (py_get cat ''category_items'' (JList [])) (\<lambda>cis.
     ebind (py_iter cis) (\<lambda>cat_groups.
     ebind (count_groups cat_groups item_count) (\<lambda>item_count1.
     ebind (py_get cat ''subcategory_items'' (JList [])) (\<lambda>sis.
     ebind (py_iter sis) (\<lambda>sub_groups.
     count_groups sub_groups item_count1)))))"

fun count_categories :: "json list \<Rightarrow> nat \<Rightarrow> exn + nat" where
  "count_categories [] item_count = Inr item_count"
| "count_categories (cat # cats) item_count =
     ebind (count_category cat item_count) (\<lambda>item_count1.
     count_categories cats item_count1)"

fun count_pages :: "json list \<Rightarrow> nat \<times> nat \<Rightarrow> exn + nat \<times> nat" where
  "count_pages [] counts = Inr counts"
| "count_pages (page # pages) (category_count, item_count) =
     ebind (py_get page ''categories'' (JList [])) (\<lambda>categories.
     ebind (py_len categories) (\<lambda>n.
     ebind (py_iter categories) (\<lambda>cats.
     ebind (count_categories cats item_count) (\<lambda>item_count1.
     count_pages pages (category_count + n, item_count1)))))"

text \<open>The pair \<open>(category_count, item_count)\<close> that \<open>get_job\<close> reports for the
  document stored in \<open>restaurant.json\<close>.\<close>

definition get_job_counts :: "json \<Rightarrow> exn + nat \<times> nat" where
  "get_job_counts restaurant_json =
     (if py_truthy restaurant_json then
        ebind (py_get restaurant_json ''pages'' (JList [])) (\<lambda>pages.
        ebind (py_iter pages) (\<lambda>ps.
        count_pages ps (0, 0)))
      else Inr (0, 0))"

text \<open>
  The shape of a stored stage document, and the two item totals of a category
  record as the specification words them: the items of all category-level item groups
  and the items of all subcategory-level item groups.
\<close>

fun is_item_group :: "json \<Rightarrow> bool" where
  "is_item_group (JObj d) =
     (case map_of d ''items'' of None \<Rightarrow> True | Some (JList xs) \<Rightarrow> True | Some _ \<Rightarrow> False)"
| "is_item_group _ = False"

fun group_items :: "json \<Rightarrow> json list" where
  "group_items (JObj d) = (case map_of d ''items'' of Some (JList xs) \<Rightarrow> xs | _ \<Rightarrow> [])"
| "group_items _ = []"

fun groups_of :: "string \<Rightarrow> json \<Rightarrow> json list option" where
  "groups_of k (JObj d) =
     (case map_of d k of None \<Rightarrow> Some [] | Some (JList gs) \<Rightarrow> Some gs | Some _ \<Rightarrow> None)"
| "groups_of k _ = None"

definition is_category_record :: "json \<Rightarrow> bool" where
  "is_category_record cat =
     (case (groups_of ''category_items'' cat, groups_of ''subcategory_items'' cat) of
        (Some cgs, Some sgs) \<Rightarrow> list_all is_item_group cgs \<and> list_all is_item_group sgs
      | _ \<Rightarrow> False)"

definition category_level_items :: "json \<Rightarrow> nat" where
  "category_level_items cat =
     sum_list (map (\<lambda>g. length (group_items g)) (the (groups_of ''category_items'' cat)))"

definition subcategory_level_items :: "json \<Rightarrow> nat" where
  "subcategory_level_items cat =
     sum_list (map (\<lambda>g. length (group_items g)) (the (groups_of ''subcategory_items'' cat)))"

definition is_page_record :: "json \<Rightarrow> bool" where
  "is_page_record page =
     (case groups_of ''categories'' page of
        Some cats \<Rightarrow> list_all is_category_record cats | None \<Rightarrow> False)"

definition categories_of_page :: "json \<Rightarrow> json list" where
  "categories_of_page page = the (groups_of ''categories'' page)"

definition is_stage_document :: "json \<Rightarrow> bool" where
  "is_stage_document doc =
     (case groups_of ''pages'' doc of
        Some pages \<Rightarrow> list_all is_page_record pages | None \<Rightarrow> False)"

definition document_pages :: "json \<Rightarrow> json list" where
  "document_pages doc = the (groups_of ''pages'' doc)"


text \<open>The example of the specification: one category with two category-level items and
  one subcategory holding three items.\<close>

definition example_stage2_document :: json where
  "example_stage2_document =
     JObj [(''restaurant_name'', JStr ''Trattoria''),
           (''pages'', JList [JObj [(''page_number'', JInt 1),
              (''categories'', JList [JObj [(''name_raw'', JStr ''Pizza''),
                 (''category_items'', JList [JObj [(''items'',
                     JList [JObj [(''name_raw'', JStr ''Margherita'')],
                            JObj [(''name_raw'', JStr ''Marinara'')]])]]),
                 (''subcategory_items'', JList [JObj [(''name_raw'', JStr ''Specials''),
                     (''items'', JList [JObj [(''name_raw'', JStr ''Diavola'')],
                                       JObj [(''name_raw'', JStr ''Capricciosa'')],
                                       JObj [(''name_raw'', JStr ''Bufala'')]])]])]])]])]"


section \<open>External collaborators\<close>

text \<open>
  The four response schemas live in \<open>backend.models.domain\<close>, which is not part of the
  sources at hand; the Jinja templates, the PDF rasteriser, Python's \<open>json.loads\<close> and
  \<open>str\<close> are library code.  They are parameters of the model, collected in one record:
  \<^item> \<open>render t vs\<close>: \<open>PromptBuilder.render\<close> of template \<open>t\<close> with variables \<open>vs\<close>;
  \<^item> \<open>json_loads s\<close>: \<open>json.loads(s)\<close>, raising \<open>JSONDecodeError msg pos\<close> on malformed text;
  \<^item> \<open>model_validate S v\<close>: \<open>S.model_validate(v).model_dump()\<close>;
  \<^item> \<open>validated_categories v\<close>: \<open>Categories.model_validate(v)\<close> followed by
    \<open>[cat.model_dump() for cat in obj.categories]\<close>;
  \<^item> \<open>convert_to_images p\<close>: \<open>PDFProcessor.convert_to_images\<close>, one encoded image per page;
  \<^item> \<open>py_str v\<close>: how an f-string renders the value \<open>v\<close>;
  \<^item> \<open>environ_MAX_CONCURRENCY\<close>: the setting \<open>MAX_CONCURRENCY\<close> of the process
    environment, when there is one.
\<close>

datatype schema = Categories | CategoryWithItems | CategoryBase | CategoryItemAddons

record env =
  render :: "string \<Rightarrow> (string \<times> json) list \<Rightarrow> exn + string"
  json_loads :: "string \<Rightarrow> exn + json"
  model_validate :: "schema \<Rightarrow> json \<Rightarrow> exn + dict"
  validated_categories :: "json \<Rightarrow> exn + dict list"
  convert_to_images :: "string \<Rightarrow> exn + string list"
  py_str :: "json \<Rightarrow> string"
  environ_MAX_CONCURRENCY :: "int option"

text \<open>\<open>Settings.MAX_CONCURRENCY: int = 4\<close> (\<open>config.py\<close>): the default holds unless the
  environment sets the value.\<close>

definition Settings_MAX_CONCURRENCY :: "env \<Rightarrow> int" where
  "Settings_MAX_CONCURRENCY E =
     (case environ_MAX_CONCURRENCY E of None \<Rightarrow> 4 | Some v \<Rightarrow> v)"

text \<open>\<open>self.max_concurrency = max_concurrency or get_settings().MAX_CONCURRENCY\<close>, the
  same line in the constructor of all four extractors.\<close>

definition extractor_max_concurrency :: "env \<Rightarrow> int option \<Rightarrow> int" where
  "extractor_max_concurrency E max_concurrency =
     (case max_concurrency of
        None \<Rightarrow> Settings_MAX_CONCURRENCY E
      | Some v \<Rightarrow> if v = 0 then Settings_MAX_CONCURRENCY E else v)"

text \<open>The convenience functions \<open>run_phase1\<close> .. \<open>run_phase4\<close> build their extractor
  without a \<open>max_concurrency\<close> argument.\<close>

definition run_phase_max_concurrency :: "env \<Rightarrow> int" where
  "run_phase_max_concurrency E = extractor_max_concurrency E None"


section \<open>Prompts (\<open>core/prompts/builder.py\<close>)\<close>

definition phase1_prompt :: "env \<Rightarrow> string \<Rightarrow> json \<Rightarrow> exn + string" where
  "phase1_prompt E restaurant_name page_number =
     render E ''phase1.j2''
       [(''restaurant_name'', JStr restaurant_name),
        (''page_number'', page_number),
        (''additional_context'', JStr [])]"

definition phase2_prompt :: "env \<Rightarrow> string \<Rightarrow> json \<Rightarrow> dict \<Rightarrow> exn + string" where
  "phase2_prompt E restaurant_name page_number category =
     render E ''phase2.j2''
       [(''restaurant_name'', JStr restaurant_name),
        (''page_number'', page_number),
        (''category_name'', dict_get category ''name'' (JStr [])),
        (''category_description'', dict_get category ''description'' (JStr [])),
        (''categories'', JObj category)]"

definition phase3_prompt :: "env \<Rightarrow> string \<Rightarrow> json \<Rightarrow> dict \<Rightarrow> exn + string" where
  "phase3_prompt E restaurant_name page_number category =
     ebind (py_len (dict_get category ''items'' (JList []))) (\<lambda>items_count.
     render E ''phase3.j2''
       [(''restaurant_name'', JStr restaurant_name),
        (''page_number'', page_number),
        (''category'', JObj category),
        (''items_count'', JInt (int items_count))])"

definition phase4_prompt :: "env \<Rightarrow> string \<Rightarrow> json \<Rightarrow> dict \<Rightarrow> dict \<Rightarrow> exn + string" where
  "phase4_prompt E restaurant_name page_number category category_base =
     render E ''phase4.j2''
       [(''restaurant_name'', JStr restaurant_name),
        (''page_number'', page_number),
        (''category'', JObj category),
        (''category_base'', JObj category_base),
        (''has_pricing'', JBool (py_truthy (dict_get category_base ''base_price'' JNull)))]"


section \<open>Units of work: one LLM call with bounded retries\<close>

text \<open>
  A unit of work is a coroutine.  It suspends at \<open>await self.llm.generate(...)\<close>, where the
  event loop later hands it the reply, and at \<open>await asyncio.sleep(1)\<close>; it ends by
  returning a dictionary or by raising.  The \<open>print\<close> calls of the source are left out.
\<close>

datatype request = Request string string schema

text \<open>What \<open>LLMClient.generate\<close> does: it raises \<open>LLMClientError\<close>, or it returns a response
  whose \<open>choices\<close> carry a message content each (\<open>None\<close> when there is no text).\<close>

datatype reply = GenerateFailed string | Response "string option list"

datatype coro =
    Return dict
  | Raise exn
  | Generate request "reply \<Rightarrow> coro"
  | Sleep nat coro

text \<open>\<open>raw = response.choices[0].message.content\<close>, after \<open>generate\<close> has returned or raised.\<close>

definition response_content :: "reply \<Rightarrow> exn + string option" where
  "response_content r =
     (case r of
        GenerateFailed m \<Rightarrow> Inl (LLMClientError (''LLM call failed: '' @ m))
      | Response [] \<Rightarrow> Inl IndexError
      | Response (c # cs) \<Rightarrow> Inr c)"

text \<open>\<open>json.loads(raw)\<close>; a \<open>None\<close> content is no string at all.\<close>

definition loads :: "env \<Rightarrow> string option \<Rightarrow> exn + json" where
  "loads E raw = (case raw of None \<Rightarrow> Inl TypeError | Some s \<Rightarrow> json_loads E s)"

text \<open>The test of the clause \<open>except json.JSONDecodeError as e\<close>, giving \<open>e.msg\<close> and
  \<open>e.pos\<close>.\<close>

fun json_decode_error :: "exn \<Rightarrow> (string \<times> nat) option" where
  "json_decode_error (JSONDecodeError msg pos) = Some (msg, pos)"
| "json_decode_error e = None"

text \<open>\<open>error_msg = f"JSON decode error at position {e.pos}: {e.msg}"\<close>\<close>

definition error_msg :: "env \<Rightarrow> nat \<Rightarrow> string \<Rightarrow> string" where
  "error_msg E pos msg =
     ''JSON decode error at position '' @ py_str E (JInt (int pos)) @ '': '' @ msg"

text \<open>
  The retry loops of the four extractors are the same code up to these constants: the
  number of attempts, the prompt, the page image, the schema, the text of the
  \<open>ValueError\<close> raised for malformed JSON on the last attempt, and the dictionary
  returned.  Each extractor below is given by its constants (\<open>Phase1_unit\<close>, ...) and is
  the loop started at \<open>attempt = 0\<close> with \<open>last_error = None\<close>.
\<close>

record unit_spec =
  max_retries :: nat
  prompt :: "exn + string"
  page_image :: string
  response_schema :: schema
  invalid_json :: "string \<Rightarrow> string"
  result :: "dict \<Rightarrow> dict"

text \<open>
  One pass through the body of \<open>for attempt in range(max_retries)\<close>.
  \<open>retries_left\<close> is the test \<open>attempt < max_retries - 1\<close>; \<open>next_attempt\<close> is the rest of the
  loop, entered by \<open>continue\<close> with the value that \<open>last_error\<close> has then.  \<open>handler\<close> is
  the clause \<open>except Exception as e\<close>: it sets \<open>last_error\<close>, then sleeps and continues, or
  re-raises.  The inner clause \<open>except json.JSONDecodeError\<close> sleeps and continues by
  itself while attempts remain, and otherwise raises the \<open>ValueError\<close> that the outer
  clause then catches.
\<close>

definition attempt_body ::
  "env \<Rightarrow> unit_spec \<Rightarrow> bool \<Rightarrow> exn option \<Rightarrow> (exn option \<Rightarrow> coro) \<Rightarrow> coro" where
  "attempt_body E U retries_left last_error next_attempt =
     (let handler = (\<lambda>e. if retries_left then Sleep 1 (next_attempt (Some e)) else Raise e)
      in case prompt U of
           Inl e \<Rightarrow> handler e
         | Inr p \<Rightarrow>
             Generate (Request p (''data:image/png;base64,'' @ page_image U) (response_schema U))
               (\<lambda>r. case response_content r of
                       Inl e \<Rightarrow> handler e
                     | Inr raw \<Rightarrow>
                        (case loads E raw of
                           Inl e \<Rightarrow>
                            (case json_decode_error e of
                               Some (msg, pos) \<Rightarrow>
                                 if retries_left then Sleep 1 (next_attempt last_error)
                                 else handler (ValueError (invalid_json U (error_msg E pos msg)))
                             | None \<Rightarrow> handler e)
                         | Inr data \<Rightarrow>
                            (case model_validate E (response_schema U) data of
                               Inl e \<Rightarrow> handler e
                             | Inr validated \<Rightarrow> Return (result U validated)))))"

function retry_loop :: "env \<Rightarrow> unit_spec \<Rightarrow> nat \<Rightarrow> exn option \<Rightarrow> coro" where
  "retry_loop E U attempt last_error =
     (if attempt < max_retries U then
        attempt_body E U (attempt < max_retries U - 1) last_error
          (\<lambda>last_error'. retry_loop E U (Suc attempt) last_error')
      else Raise (case last_error of Some e \<Rightarrow> e
                  | None \<Rightarrow> ValueError ''All retry attempts failed''))"
  by pat_completeness auto
termination
  by (relation "measure (\<lambda>(E, U, attempt, last_error). max_retries U - attempt)") auto

text \<open>\<open>Phase1Extractor.extract_page\<close>\<close>

definition Phase1_unit :: "env \<Rightarrow> string \<Rightarrow> json \<Rightarrow> string \<Rightarrow> unit_spec" where
  "Phase1_unit E restaurant_name page_number img =
     \<lparr>max_retries = 2,
      prompt = phase1_prompt E restaurant_name page_number,
      page_image = img,
      response_schema = Categories,
      invalid_json = (\<lambda>m. ''LLM returned invalid JSON for page '' @ py_str E page_number
                            @ '': '' @ m),
      result = (\<lambda>validated. [(''page_number'', page_number), (''data'', JObj validated)])\<rparr>"

definition Phase1_extract_page :: "env \<Rightarrow> string \<Rightarrow> json \<Rightarrow> string \<Rightarrow> coro" where
  "Phase1_extract_page E restaurant_name page_number img =
     retry_loop E (Phase1_unit E restaurant_name page_number img) 0 None"

text \<open>\<open>category.get('name_raw', category.get('name', 'unknown'))\<close>\<close>

definition category_name :: "dict \<Rightarrow> json" where
  "category_name category =
     dict_get category ''name_raw'' (dict_get category ''name'' (JStr ''unknown''))"

text \<open>\<open>Phase2Extractor.extract_category\<close>\<close>

definition Phase2_unit :: "env \<Rightarrow> string \<Rightarrow> json \<Rightarrow> string \<Rightarrow> dict \<Rightarrow> unit_spec" where
  "Phase2_unit E restaurant_name page_number img category =
     \<lparr>max_retries = 3,
      prompt = phase2_prompt E restaurant_name page_number category,
      page_image = img,
      response_schema = CategoryWithItems,
      invalid_json = (\<lambda>m. ''LLM returned invalid JSON for category '' @ [CHR 0x27]
                            @ py_str E (category_name category) @ [CHR 0x27]
                            @ '' on page '' @ py_str E page_number @ '': '' @ m),
      result = (\<lambda>validated. validated)\<rparr>"

definition Phase2_extract_category :: "env \<Rightarrow> string \<Rightarrow> json \<Rightarrow> string \<Rightarrow> dict \<Rightarrow> coro" where
  "Phase2_extract_category E restaurant_name page_number img category =
     retry_loop E (Phase2_unit E restaurant_name page_number img category) 0 None"

text \<open>\<open>Phase3Extractor.extract_category_base\<close>\<close>

definition Phase3_unit :: "env \<Rightarrow> string \<Rightarrow> json \<Rightarrow> string \<Rightarrow> dict \<Rightarrow> unit_spec" where
  "Phase3_unit E restaurant_name page_number img category =
     \<lparr>max_retries = 2,
      prompt = phase3_prompt E restaurant_name page_number [(''category'', JObj category)],
      page_image = img,
      response_schema = CategoryBase,
      invalid_json = (\<lambda>m. ''LLM returned invalid JSON for category '' @ [CHR 0x27]
                            @ py_str E (dict_get category ''name_raw'' (JStr ''unknown''))
                            @ [CHR 0x27] @ '': '' @ m),
      result = (\<lambda>validated. validated)\<rparr>"

definition Phase3_extract_category_base :: "env \<Rightarrow> string \<Rightarrow> json \<Rightarrow> string \<Rightarrow> dict \<Rightarrow> coro" where
  "Phase3_extract_category_base E restaurant_name page_number img category =
     retry_loop E (Phase3_unit E restaurant_name page_number img category) 0 None"

text \<open>\<open>Phase4Extractor.extract_category_addons\<close>\<close>

definition Phase4_unit :: "env \<Rightarrow> string \<Rightarrow> json \<Rightarrow> string \<Rightarrow> dict \<Rightarrow> dict \<Rightarrow> unit_spec" where
  "Phase4_unit E restaurant_name page_number img category category_base =
     \<lparr>max_retries = 2,
      prompt = phase4_prompt E restaurant_name page_number
                 [(''category'', JObj category)] [(''category_base'', JObj category_base)],
      page_image = img,
      response_schema = CategoryItemAddons,
      invalid_json = (\<lambda>m. ''LLM returned invalid JSON for category '' @ [CHR 0x27]
                            @ py_str E (dict_get category ''name_raw'' (JStr ''unknown''))
                            @ [CHR 0x27] @ '': '' @ m),
      result = (\<lambda>validated. validated)\<rparr>"

definition Phase4_extract_category_addons :: "env \<Rightarrow> string \<Rightarrow> json \<Rightarrow> string \<Rightarrow> dict \<Rightarrow> dict \<Rightarrow> coro" where
  "Phase4_extract_category_addons E restaurant_name page_number img category category_base =
     retry_loop E (Phase4_unit E restaurant_name page_number img category category_base) 0 None"

text \<open>
  A unit run by itself: the replies of the LLM capability are taken from a list, one per
  call.  The result is the way the unit ended, the number of \<open>generate\<close> calls it made
  and the time it slept; \<open>None\<close> means that the replies ran out before it ended.
\<close>

fun run_coro :: "coro \<Rightarrow> reply list \<Rightarrow> ((exn + dict) \<times> nat \<times> nat) option" where
  "run_coro (Return v) rs = Some (Inr v, 0, 0)"
| "run_coro (Raise e) rs = Some (Inl e, 0, 0)"
| "run_coro (Generate req k) [] = None"
| "run_coro (Generate req k) (r # rs) =
     map_option (\<lambda>(out, calls, slept). (out, Suc calls, slept)) (run_coro (k r) rs)"
| "run_coro (Sleep d c) rs =
     map_option (\<lambda>(out, calls, slept). (out, calls, slept + d)) (run_coro c rs)"

text \<open>
  How a single attempt on reply \<open>r\<close> fails, if it does: the exception that the last
  attempt of the loop would raise for it.
\<close>

definition attempt_failure :: "env \<Rightarrow> unit_spec \<Rightarrow> reply \<Rightarrow> exn option" where
  "attempt_failure E U r =
     (case response_content r of
        Inl e \<Rightarrow> Some e
      | Inr raw \<Rightarrow>
         (case loads E raw of
            Inl e \<Rightarrow>
             (case json_decode_error e of
                Some (msg, pos) \<Rightarrow> Some (ValueError (invalid_json U (error_msg E pos msg)))
              | None \<Rightarrow> Some e)
          | Inr data \<Rightarrow>
             (case model_validate E (response_schema U) data of
                Inl e \<Rightarrow> Some e
              | Inr validated \<Rightarrow> None)))"


section \<open>Bounded fan-out (\<open>_bounded_gather\<close>)\<close>

text \<open>
  \<^verbatim>\<open>
  sem = asyncio.Semaphore(self.max_concurrency)
  async def _run(coro):
      async with sem:
          return await coro
  return await asyncio.gather(*(_run(c) for c in coros))
  \<close>
  \<open>asyncio.gather\<close> makes one task per coroutine and keeps their results by position.
  A task is \<open>Pending\<close> until the semaphore admits it, \<open>Active\<close> while it holds a permit
  and waits for a reply or a timer, and \<open>Finished\<close> with what it returned or raised; on
  finishing it gives its permit back.  The first exception that a task raises is what
  the caller of \<open>gather\<close> receives (\<open>raised\<close>), at that moment; the other tasks are not
  cancelled.  The event loop is an arbitrary sequence of events: which task is admitted,
  which call is answered, with what, and which timer fires, in any order that the state
  allows.
\<close>

datatype slot = Pending coro | Active coro | Finished "exn + dict"

record gather_state =
  slots :: "slot list"
  permits :: nat
  raised :: "exn option"

datatype event = Admit nat | Deliver nat reply | Wake nat

text \<open>Task \<open>i\<close>, holding a permit, has run up to its next suspension or to its end.\<close>

definition resume :: "gather_state \<Rightarrow> nat \<Rightarrow> coro \<Rightarrow> gather_state" where
  "resume g i c =
     (case c of
        Return v \<Rightarrow>
          g\<lparr>slots := (slots g)[i := Finished (Inr v)], permits := Suc (permits g)\<rparr>
      | Raise e \<Rightarrow>
          g\<lparr>slots := (slots g)[i := Finished (Inl e)], permits := Suc (permits g),
            raised := (case raised g of None \<Rightarrow> Some e | Some e0 \<Rightarrow> Some e0)\<rparr>
      | Generate req k \<Rightarrow> g\<lparr>slots := (slots g)[i := Active c]\<rparr>
      | Sleep d c' \<Rightarrow> g\<lparr>slots := (slots g)[i := Active c]\<rparr>)"

fun step :: "gather_state \<Rightarrow> event \<Rightarrow> gather_state option" where
  "step g (Admit i) =
     (if i < length (slots g) \<and> 0 < permits g then
        (case slots g ! i of
           Pending c \<Rightarrow> Some (resume (g\<lparr>permits := permits g - 1\<rparr>) i c)
         | _ \<Rightarrow> None)
      else None)"
| "step g (Deliver i r) =
     (if i < length (slots g) then
        (case slots g ! i of
           Active (Generate req k) \<Rightarrow> Some (resume g i (k r))
         | _ \<Rightarrow> None)
      else None)"
| "step g (Wake i) =
     (if i < length (slots g) then
        (case slots g ! i of
           Active (Sleep d c) \<Rightarrow> Some (resume g i c)
         | _ \<Rightarrow> None)
      else None)"

text \<open>The states that a sequence of events leads through; \<open>None\<close> when an event is not
  possible in the state it meets.\<close>

fun steps :: "gather_state \<Rightarrow> event list \<Rightarrow> gather_state option" where
  "steps g [] = Some g"
| "steps g (ev # evs) = (case step g ev of None \<Rightarrow> None | Some g' \<Rightarrow> steps g' evs)"

definition slot_result :: "slot \<Rightarrow> dict option" where
  "slot_result s = (case s of Finished (Inr v) \<Rightarrow> Some v | _ \<Rightarrow> None)"

text \<open>What the caller of \<open>gather\<close> has received in state \<open>g\<close>: the first exception raised,
  or the results of all tasks in the order of the tasks, or nothing yet.\<close>

definition outcome :: "gather_state \<Rightarrow> (exn + dict list) option" where
  "outcome g =
     (case raised g of
        Some e \<Rightarrow> Some (Inl e)
      | None \<Rightarrow> map_option Inr (those (map slot_result (slots g))))"

fun gather_run :: "gather_state \<Rightarrow> event list \<Rightarrow> (exn + dict list) option" where
  "gather_run g [] = outcome g"
| "gather_run g (ev # evs) =
     (case outcome g of
        Some r \<Rightarrow> Some r
      | None \<Rightarrow> (case step g ev of None \<Rightarrow> None | Some g' \<Rightarrow> gather_run g' evs))"

definition gather_start :: "nat \<Rightarrow> coro list \<Rightarrow> gather_state" where
  "gather_start n coros = \<lparr>slots = map Pending coros, permits = n, raised = None\<rparr>"

text \<open>\<open>_bounded_gather\<close> under the events \<open>evs\<close>; \<open>None\<close> when the events do not bring the
  fan-out to an end.  \<open>asyncio.Semaphore\<close> refuses a negative initial value.\<close>

definition bounded_gather :: "int \<Rightarrow> coro list \<Rightarrow> event list \<Rightarrow> (exn + dict list) option" where
  "bounded_gather max_concurrency coros evs =
     (if max_concurrency < 0 then Some (Inl (ValueError ''Semaphore initial value must be >= 0''))
      else gather_run (gather_start (nat max_concurrency) coros) evs)"

fun is_active :: "slot \<Rightarrow> bool" where
  "is_active (Active c) = True"
| "is_active _ = False"

definition active_count :: "gather_state \<Rightarrow> nat" where
  "active_count g = length (filter is_active (slots g))"



section \<open>Stage drivers\<close>

text \<open>
  A stage driver is a coroutine that awaits fan-outs: it ends with the stage document,
  or with an exception, or it submits a list of units and goes on with their results.
  No driver catches an exception of \<open>_bounded_gather\<close>, so a failed fan-out ends the driver
  with that exception.
\<close>

datatype stage = Done dict | Fail exn | Gather "coro list" "dict list \<Rightarrow> stage"

text \<open>\<open>x = await s\<close> followed by \<open>f x\<close>.\<close>

primrec stage_bind :: "stage \<Rightarrow> (dict \<Rightarrow> stage) \<Rightarrow> stage" where
  "stage_bind (Done v) f = f v"
| "stage_bind (Fail e) f = Fail e"
| "stage_bind (Gather us k) f = Gather us (\<lambda>rs. stage_bind (k rs) f)"

text \<open>A driver run with one event sequence for each fan-out it performs, in order; the
  unused sequences are returned with the result.\<close>

fun run_stage ::
  "int \<Rightarrow> stage \<Rightarrow> event list list \<Rightarrow> ((exn + dict) \<times> event list list) option" where
  "run_stage mc (Done v) ss = Some (Inr v, ss)"
| "run_stage mc (Fail e) ss = Some (Inl e, ss)"
| "run_stage mc (Gather us k) [] = None"
| "run_stage mc (Gather us k) (s # ss) =
     (case bounded_gather mc us s of
        None \<Rightarrow> None
      | Some (Inl e) \<Rightarrow> Some (Inl e, ss)
      | Some (Inr rs) \<Rightarrow> run_stage mc (k rs) ss)"

text \<open>The unit lists of the successive fan-outs of a driver, when the earlier fan-outs
  return the results \<open>rss\<close>.\<close>

fun fanouts :: "stage \<Rightarrow> dict list list \<Rightarrow> coro list list" where
  "fanouts (Gather us k) [] = [us]"
| "fanouts (Gather us k) (rs # rss) = us # fanouts (k rs) rss"
| "fanouts (Done v) rss = []"
| "fanouts (Fail e) rss = []"

text \<open>\<open>{"restaurant_name": restaurant_name, "pages": pages}\<close> and
  \<open>{"page_number": page_number, "categories": category_results}\<close>\<close>

definition document :: "string \<Rightarrow> dict list \<Rightarrow> dict" where
  "document restaurant_name pages =
     [(''restaurant_name'', JStr restaurant_name), (''pages'', JList (map JObj pages))]"

definition page_result :: "json \<Rightarrow> dict list \<Rightarrow> dict" where
  "page_result page_number category_results =
     [(''page_number'', page_number), (''categories'', JList (map JObj category_results))]"

text \<open>\<open>xs[i]\<close> on a list: a negative index counts from the end.\<close>

definition list_index :: "'a list \<Rightarrow> int \<Rightarrow> exn + 'a" where
  "list_index xs i =
     (let n = int (length xs)
      in if 0 \<le> i \<and> i < n then Inr (xs ! nat i)
         else if - n \<le> i \<and> i < 0 then Inr (xs ! nat (n + i))
         else Inl IndexError)"

text \<open>\<open>images[page_number - 1]\<close>: the subtraction needs a number, the index an integer
  (a boolean is one).\<close>

definition page_image_at :: "string list \<Rightarrow> json \<Rightarrow> exn + string" where
  "page_image_at images page_number =
     (case page_number of
        JInt n \<Rightarrow> list_index images (n - 1)
      | JBool b \<Rightarrow> list_index images ((if b then 1 else 0) - 1)
      | _ \<Rightarrow> Inl TypeError)"

text \<open>
  The loop \<open>for page in pages: ...; page_result = await self.extract_page(...);
  all_pages.append(page_result)\<close> followed by the \<open>return\<close> of the document, shared by the
  drivers of phases 2 to 4; \<open>body\<close> is what the loop does with one page.
\<close>

fun pages_loop :: "('p \<Rightarrow> stage) \<Rightarrow> string \<Rightarrow> 'p list \<Rightarrow> dict list \<Rightarrow> stage" where
  "pages_loop body restaurant_name [] all_pages = Done (document restaurant_name all_pages)"
| "pages_loop body restaurant_name (page # pages) all_pages =
     stage_bind (body page)
       (\<lambda>page_result. pages_loop body restaurant_name pages (all_pages @ [page_result]))"

subsection \<open>Phase 1\<close>

text \<open>\<open>Phase1Extractor.extract_all_pages\<close>\<close>

definition Phase1_extract_all_pages :: "env \<Rightarrow> string \<Rightarrow> string \<Rightarrow> stage" where
  "Phase1_extract_all_pages E restaurant_name pdf_path =
     (case convert_to_images E pdf_path of
        Inl e \<Rightarrow> Fail e
      | Inr images \<Rightarrow>
          Gather (map (\<lambda>(page_idx, img).
                         Phase1_extract_page E restaurant_name (JInt (int page_idx)) img)
                      (enumerate 1 images))
            (\<lambda>pages. Done (document restaurant_name pages)))"

subsection \<open>Phase 2\<close>

text \<open>\<open>Phase2Extractor.extract_page\<close>\<close>

definition Phase2_extract_page ::
  "env \<Rightarrow> string \<Rightarrow> json \<Rightarrow> string \<Rightarrow> dict list \<Rightarrow> stage" where
  "Phase2_extract_page E restaurant_name page_number img page_categories =
     Gather (map (\<lambda>cat. Phase2_extract_category E restaurant_name page_number img cat)
                 page_categories)
       (\<lambda>category_results. Done (page_result page_number category_results))"

text \<open>The loop body of \<open>Phase2Extractor.extract_all_pages\<close> up to the call of
  \<open>extract_page\<close>: page number, page image, validated categories.\<close>

definition Phase2_prepare_page ::
  "env \<Rightarrow> string list \<Rightarrow> json \<Rightarrow> exn + json \<times> string \<times> dict list" where
  "Phase2_prepare_page E images page =
     ebind (py_getitem page ''page_number'') (\<lambda>page_number.
     ebind (page_image_at images page_number) (\<lambda>img_b64.
     ebind (py_getitem page ''data'') (\<lambda>data.
     ebind (validated_categories E data) (\<lambda>page_categories.
     Inr (page_number, img_b64, page_categories)))))"

definition Phase2_page :: "env \<Rightarrow> string \<Rightarrow> string list \<Rightarrow> json \<Rightarrow> stage" where
  "Phase2_page E restaurant_name images page =
     (case Phase2_prepare_page E images page of
        Inl e \<Rightarrow> Fail e
      | Inr (page_number, img_b64, page_categories) \<Rightarrow>
          Phase2_extract_page E restaurant_name page_number img_b64 page_categories)"

text \<open>\<open>Phase2Extractor.extract_all_pages\<close>\<close>

definition Phase2_extract_all_pages :: "env \<Rightarrow> string \<Rightarrow> dict \<Rightarrow> string \<Rightarrow> stage" where
  "Phase2_extract_all_pages E restaurant_name categories_payload pdf_path =
     (case convert_to_images E pdf_path of
        Inl e \<Rightarrow> Fail e
      | Inr images \<Rightarrow>
         (case ebind (py_getitem (JObj categories_payload) ''pages'') py_iter of
            Inl e \<Rightarrow> Fail e
          | Inr pages \<Rightarrow> pages_loop (Phase2_page E restaurant_name images) restaurant_name pages []))"

subsection \<open>Phase 3\<close>

text \<open>\<open>Phase3Extractor.extract_page\<close>\<close>

definition Phase3_extract_page ::
  "env \<Rightarrow> string \<Rightarrow> json \<Rightarrow> string \<Rightarrow> dict list \<Rightarrow> stage" where
  "Phase3_extract_page E restaurant_name page_number img page_categories =
     Gather (map (\<lambda>cat. Phase3_extract_category_base E restaurant_name page_number img cat)
                 page_categories)
       (\<lambda>category_results. Done (page_result page_number category_results))"

text \<open>\<open>[S.model_validate(x).model_dump() for x in page["categories"]]\<close>\<close>

definition validated_list :: "env \<Rightarrow> schema \<Rightarrow> json \<Rightarrow> exn + dict list" where
  "validated_list E S page =
     ebind (py_getitem page ''categories'') (\<lambda>categories.
     ebind (py_iter categories) (\<lambda>cats.
     emap (model_validate E S) cats))"

definition Phase3_prepare_page ::
  "env \<Rightarrow> string list \<Rightarrow> json \<Rightarrow> exn + json \<times> string \<times> dict list" where
  "Phase3_prepare_page E images page =
     ebind (py_getitem page ''page_number'') (\<lambda>page_number.
     ebind (page_image_at images page_number) (\<lambda>img_b64.
     ebind (validated_list E CategoryWithItems page) (\<lambda>page_categories.
     Inr (page_number, img_b64, page_categories))))"

definition Phase3_page :: "env \<Rightarrow> string \<Rightarrow> string list \<Rightarrow> json \<Rightarrow> stage" where
  "Phase3_page E restaurant_name images page =
     (case Phase3_prepare_page E images page of
        Inl e \<Rightarrow> Fail e
      | Inr (page_number, img_b64, page_categories) \<Rightarrow>
          Phase3_extract_page E restaurant_name page_number img_b64 page_categories)"

text \<open>\<open>Phase3Extractor.extract_all_pages\<close>\<close>

definition Phase3_extract_all_pages :: "env \<Rightarrow> string \<Rightarrow> dict \<Rightarrow> string \<Rightarrow> stage" where
  "Phase3_extract_all_pages E restaurant_name items_payload pdf_path =
     (case convert_to_images E pdf_path of
        Inl e \<Rightarrow> Fail e
      | Inr images \<Rightarrow>
         (case ebind (py_getitem (JObj items_payload) ''pages'') py_iter of
            Inl e \<Rightarrow> Fail e
          | Inr pages \<Rightarrow> pages_loop (Phase3_page E restaurant_name images) restaurant_name pages []))"

subsection \<open>Phase 4\<close>

text \<open>\<open>Phase4Extractor.extract_page\<close>: one unit for each pair of
  \<open>zip(page_categories, page_bases)\<close>.\<close>

definition Phase4_extract_page ::
  "env \<Rightarrow> string \<Rightarrow> json \<Rightarrow> string \<Rightarrow> dict list \<Rightarrow> dict list \<Rightarrow> stage" where
  "Phase4_extract_page E restaurant_name page_number img page_categories page_bases =
     Gather (map (\<lambda>(cat, base).
                    Phase4_extract_category_addons E restaurant_name page_number img cat base)
                 (zip page_categories page_bases))
       (\<lambda>category_results. Done (page_result page_number category_results))"

definition Phase4_prepare_page ::
  "env \<Rightarrow> string list \<Rightarrow> json \<times> json \<Rightarrow> exn + json \<times> string \<times> dict list \<times> dict list" where
  "Phase4_prepare_page E images pair =
     (case pair of (page_items, page_bases) \<Rightarrow>
        ebind (py_getitem page_items ''page_number'') (\<lambda>page_number.
        ebind (page_image_at images page_number) (\<lambda>img_b64.
        ebind (validated_list E CategoryWithItems page_items) (\<lambda>page_categories.
        ebind (validated_list E CategoryBase page_bases) (\<lambda>page_bases_list.
        Inr (page_number, img_b64, page_categories, page_bases_list))))))"

definition Phase4_page :: "env \<Rightarrow> string \<Rightarrow> string list \<Rightarrow> json \<times> json \<Rightarrow> stage" where
  "Phase4_page E restaurant_name images pair =
     (case Phase4_prepare_page E images pair of
        Inl e \<Rightarrow> Fail e
      | Inr (page_number, img_b64, page_categories, page_bases_list) \<Rightarrow>
          Phase4_extract_page E restaurant_name page_number img_b64
            page_categories page_bases_list)"

text \<open>\<open>Phase4Extractor.extract_all_pages\<close>: the loop runs over
  \<open>zip(items_payload["pages"], bases_payload["pages"])\<close>.\<close>

definition Phase4_extract_all_pages ::
  "env \<Rightarrow> string \<Rightarrow> dict \<Rightarrow> dict \<Rightarrow> string \<Rightarrow> stage" where
  "Phase4_extract_all_pages E restaurant_name items_payload bases_payload pdf_path =
     (case convert_to_images E pdf_path of
        Inl e \<Rightarrow> Fail e
      | Inr images \<Rightarrow>
         (case ebind (py_getitem (JObj items_payload) ''pages'') (\<lambda>item_pages.
               ebind (py_getitem (JObj bases_payload) ''pages'') (\<lambda>base_pages.
               ebind (py_iter item_pages) (\<lambda>ips.
               ebind (py_iter base_pages) (\<lambda>bps. Inr (zip ips bps))))) of
            Inl e \<Rightarrow> Fail e
          | Inr pairs \<Rightarrow> pages_loop (Phase4_page E restaurant_name images) restaurant_name pairs []))"


section \<open>A stub environment for concrete runs\<close>

text \<open>
  A small instance of the collaborators, used to run the model on concrete inputs:
  \<open>json.loads\<close> knows three texts and rejects every other one at position 0; a schema
  asks for one required field; every template renders to its own name; two PDF files
  exist, of one and of two pages.
\<close>

fun str_nat :: "nat \<Rightarrow> string" where
  "str_nat n =
     (if n < 10 then [''0123456789'' ! n]
      else str_nat (n div 10) @ [''0123456789'' ! (n mod 10)])"

declare str_nat.simps [simp del]

definition example_str :: "json \<Rightarrow> string" where
  "example_str v =
     (case v of
        JStr s \<Rightarrow> s
      | JInt i \<Rightarrow> (if i < 0 then CHR ''-'' # str_nat (nat (- i)) else str_nat (nat i))
      | JBool b \<Rightarrow> (if b then ''True'' else ''False'')
      | JNull \<Rightarrow> ''None''
      | _ \<Rightarrow> ''...'')"

definition example_loads :: "string \<Rightarrow> exn + json" where
  "example_loads s =
     (if s = ''{categories}'' then
        Inr (JObj [(''categories'', JList [JObj [(''name_raw'', JStr ''Pizza'')]])])
      else if s = ''{items}'' then
        Inr (JObj [(''name_raw'', JStr ''Pizza''), (''category_items'', JList [])])
      else if s = ''{}'' then Inr (JObj [])
      else Inl (JSONDecodeError ''Expecting value'' 0))"

definition required_field :: "schema \<Rightarrow> string" where
  "required_field S = (case S of Categories \<Rightarrow> ''categories'' | _ \<Rightarrow> ''name_raw'')"

definition example_validate :: "schema \<Rightarrow> json \<Rightarrow> exn + dict" where
  "example_validate S v =
     (case v of
        JObj d \<Rightarrow>
          (case map_of d (required_field S) of
             Some x \<Rightarrow> Inr d
           | None \<Rightarrow> Inl (ValidationError (required_field S @ '': Field required'')))
      | _ \<Rightarrow> Inl (ValidationError ''Input should be an object''))"

definition example_categories :: "json \<Rightarrow> exn + dict list" where
  "example_categories v =
     ebind (example_validate Categories v) (\<lambda>d.
     ebind (py_iter (dict_get d ''categories'' JNull)) (\<lambda>cats.
     emap (example_validate CategoryWithItems) cats))"

definition example_images :: "string \<Rightarrow> exn + string list" where
  "example_images pdf_path =
     (if pdf_path = ''one.pdf'' then Inr [''image1'']
      else if pdf_path = ''two.pdf'' then Inr [''image1'', ''image2'']
      else Inl (FileNotFoundError (''PDF not found: '' @ pdf_path)))"

definition example_env :: env where
  "example_env =
     \<lparr>render = (\<lambda>template variables. Inr template),
      json_loads = example_loads,
      model_validate = example_validate,
      validated_categories = example_categories,
      convert_to_images = example_images,
      py_str = example_str,
      environ_MAX_CONCURRENCY = None\<rparr>"


section \<open>Observations and event loops used in the statements\<close>


fun has_failed :: "slot \<Rightarrow> bool" where
  "has_failed (Finished (Inl e)) = True"
| "has_failed _ = False"

text \<open>The first failure is on record: a task has failed only if \<open>raised\<close> is set, and
  \<open>raised\<close> holds the exception of a task that has failed.\<close>

definition failure_recorded :: "gather_state \<Rightarrow> bool" where
  "failure_recorded g =
     ((\<forall>j<length (slots g). has_failed (slots g ! j) \<longrightarrow> raised g \<noteq> None) \<and>
      (\<forall>e. raised g = Some e \<longrightarrow> (\<exists>j<length (slots g). slots g ! j = Finished (Inl e))))"

text \<open>
  An event loop that runs the tasks one after another, in the order \<open>order\<close>: it admits
  task \<open>i\<close>, answers its calls with the replies \<open>rss ! i\<close> and fires its timers until it
  ends, and then goes on to the next task.  So the tasks complete in the order \<open>order\<close>.
\<close>

fun drive :: "nat \<Rightarrow> coro \<Rightarrow> reply list \<Rightarrow> event list" where
  "drive i (Return v) rs = []"
| "drive i (Raise e) rs = []"
| "drive i (Generate req k) [] = []"
| "drive i (Generate req k) (r # rs) = Deliver i r # drive i (k r) rs"
| "drive i (Sleep d c) rs = Wake i # drive i c rs"

definition schedule :: "coro list \<Rightarrow> reply list list \<Rightarrow> nat list \<Rightarrow> event list" where
  "schedule coros rss order =
     concat (map (\<lambda>i. Admit i # drive i (coros ! i) (rss ! i)) order)"

text \<open>The state of a fan-out in which the tasks in \<open>D\<close> have returned, none has failed and
  the others have not been admitted yet.\<close>

definition returned_state :: "nat \<Rightarrow> coro list \<Rightarrow> dict list \<Rightarrow> nat set \<Rightarrow> gather_state" where
  "returned_state n coros vs D =
     \<lparr>slots = map (\<lambda>i. if i \<in> D then Finished (Inr (vs ! i)) else Pending (coros ! i))
                 [0..<length coros],
      permits = n, raised = None\<rparr>"

text \<open>The units that the loop of a driver submits for one page of its input: the list
  \<open>coros\<close> of \<open>extract_page\<close>, for the page number, the image and the validated categories
  that the loop body has computed; there are none when the loop body raises.\<close>

definition Phase2_page_units :: "env \<Rightarrow> string \<Rightarrow> string list \<Rightarrow> json \<Rightarrow> coro list" where
  "Phase2_page_units E restaurant_name images page =
     (case Phase2_prepare_page E images page of
        Inl e \<Rightarrow> []
      | Inr (page_number, img_b64, page_categories) \<Rightarrow>
          map (\<lambda>cat. Phase2_extract_category E restaurant_name page_number img_b64 cat)
              page_categories)"

definition Phase3_page_units :: "env \<Rightarrow> string \<Rightarrow> string list \<Rightarrow> json \<Rightarrow> coro list" where
  "Phase3_page_units E restaurant_name images page =
     (case Phase3_prepare_page E images page of
        Inl e \<Rightarrow> []
      | Inr (page_number, img_b64, page_categories) \<Rightarrow>
          map (\<lambda>cat. Phase3_extract_category_base E restaurant_name page_number img_b64 cat)
              page_categories)"

definition Phase4_page_units ::
  "env \<Rightarrow> string \<Rightarrow> string list \<Rightarrow> json \<times> json \<Rightarrow> coro list" where
  "Phase4_page_units E restaurant_name images pair =
     (case Phase4_prepare_page E images pair of
        Inl e \<Rightarrow> []
      | Inr (page_number, img_b64, page_categories, page_bases_list) \<Rightarrow>
          map (\<lambda>(cat, base).
                 Phase4_extract_category_addons E restaurant_name page_number img_b64 cat base)
              (zip page_categories page_bases_list))"

text \<open>A Stage 1 document of two pages, with one category on each page.\<close>

definition example_stage1_document :: dict where
  "example_stage1_document =
     [(''restaurant_name'', JStr ''Roma''),
      (''pages'', JList
         [JObj [(''page_number'', JInt 1),
                (''data'', JObj [(''categories'', JList [JObj [(''name_raw'', JStr ''Pizza'')]])])],
          JObj [(''page_number'', JInt 2),
                (''data'', JObj [(''categories'', JList [JObj [(''name_raw'', JStr ''Pasta'')]])])]])]"

text \<open>The event loop that completes the units of a fan-out in the order of submission.\<close>

definition page_schedule :: "coro list \<Rightarrow> reply list list \<Rightarrow> event list" where
  "page_schedule units rss = schedule units rss [0..<length units]"

text \<open>
  A Stage 2 document of two pages and a Stage 3 document of one page.  The first page has
  three categories in the one and two bases in the other, and the names at equal
  positions differ.
\<close>

definition example_items_document :: dict where
  "example_items_document =
     [(''restaurant_name'', JStr ''Roma''),
      (''pages'', JList
         [JObj [(''page_number'', JInt 1),
                (''categories'', JList
                   [JObj [(''name_raw'', JStr ''Pizza'')],
                    JObj [(''name_raw'', JStr ''Pasta'')],
                    JObj [(''name_raw'', JStr ''Salad'')]])],
          JObj [(''page_number'', JInt 2),
                (''categories'', JList [JObj [(''name_raw'', JStr ''Dessert'')]])]])]"

definition example_bases_document :: dict where
  "example_bases_document =
     [(''restaurant_name'', JStr ''Roma''),
      (''pages'', JList
         [JObj [(''page_number'', JInt 1),
                (''categories'', JList
                   [JObj [(''name_raw'', JStr ''Pasta''), (''base_price'', JInt 9)],
                    JObj [(''name_raw'', JStr ''Pizza''), (''base_price'', JInt 8)]])]])]"

text \<open>
  Runs of a driver that performs one fan-out for each page.  \<open>pages_return\<close> says that the
  units of the first \<open>n\<close> pages all return: unit \<open>j\<close> of page \<open>p\<close>, given the replies
  \<open>rsss ! p ! j\<close>, returns \<open>vss ! p ! j\<close>.  \<open>pages_events\<close> is the event loop that lets the
  units of each of these pages complete in the order of submission.
\<close>

definition pages_return ::
  "('p \<Rightarrow> coro list) \<Rightarrow> 'p list \<Rightarrow> nat \<Rightarrow> reply list list list \<Rightarrow> dict list list \<Rightarrow> bool" where
  "pages_return units pages n rsss vss =
     (\<forall>p<n. length (vss ! p) = length (units (pages ! p)) \<and>
            (\<forall>j<length (vss ! p).
               map_option fst (run_coro (units (pages ! p) ! j) (rsss ! p ! j)) =
                 Some (Inr (vss ! p ! j))))"

definition pages_events ::
  "('p \<Rightarrow> coro list) \<Rightarrow> 'p list \<Rightarrow> nat \<Rightarrow> reply list list list \<Rightarrow> event list list" where
  "pages_events units pages n rsss =
     map (\<lambda>p. page_schedule (units (pages ! p)) (rsss ! p)) [0..<n]"

text \<open>A Stage 2 document whose second page holds something that is not a category.\<close>

definition example_malformed_items_document :: dict where
  "example_malformed_items_document =
     [(''restaurant_name'', JStr ''Roma''),
      (''pages'', JList
         [JObj [(''page_number'', JInt 1),
                (''categories'', JList [JObj [(''name_raw'', JStr ''Pizza'')]])],
          JObj [(''page_number'', JInt 2),
                (''categories'', JList [JStr ''not a category''])]])]"


section \<open>Item counting\<close>

lemma ebind_Inr [simp]: "ebind (Inr x) f = f x"
  by (simp add: ebind_def)

lemma ebind_Inl [simp]: "ebind (Inl e) f = Inl e"
  by (simp add: ebind_def)

lemma count_groups_sum:
  "list_all is_item_group gs \<Longrightarrow>
   count_groups gs n = Inr (n + sum_list (map (\<lambda>g. length (group_items g)) gs))"
proof (induction gs arbitrary: n)
  case Nil
  show ?case by simp
next
  case (Cons g gs)
  from Cons.prems have g: "is_item_group g" and gs: "list_all is_item_group gs"
    by simp_all
  from g obtain d where d: "g = JObj d"
    by (cases g) simp_all
  from g d have len: "ebind (py_get g ''items'' (JList [])) py_len = Inr (length (group_items g))"
    by (auto simp: dict_get_def split: option.splits json.splits)
  have "count_groups (g # gs) n = count_groups gs (n + length (group_items g))"
    using g d by (auto simp: dict_get_def split: option.splits json.splits)
  then show ?case
    using Cons.IH [OF gs] by (simp add: add.assoc)
qed

lemma groups_of_get_iter:
  "groups_of k v = Some gs \<Longrightarrow> ebind (py_get v k (JList [])) py_iter = Inr gs"
  by (cases v) (auto simp: dict_get_def split: option.splits json.splits)

lemma count_category_sum:
  assumes "is_category_record cat"
  shows "count_category cat n = Inr (n + category_level_items cat + subcategory_level_items cat)"
proof -
  from assms obtain cgs sgs where
    c: "groups_of ''category_items'' cat = Some cgs" and
    s: "groups_of ''subcategory_items'' cat = Some sgs" and
    wc: "list_all is_item_group cgs" and ws: "list_all is_item_group sgs"
    by (auto simp: is_category_record_def split: option.splits)
  from c obtain d where d: "cat = JObj d"
    by (cases cat) simp_all
  have i1: "py_iter (dict_get d ''category_items'' (JList [])) = Inr cgs"
    using groups_of_get_iter [OF c] d by simp
  have i2: "py_iter (dict_get d ''subcategory_items'' (JList [])) = Inr sgs"
    using groups_of_get_iter [OF s] d by simp
  show ?thesis
    using i1 i2 c s
    by (simp add: count_category_def d count_groups_sum [OF wc] count_groups_sum [OF ws]
        category_level_items_def subcategory_level_items_def)
qed

lemma count_categories_sum:
  "list_all is_category_record cats \<Longrightarrow>
   count_categories cats n =
     Inr (n + sum_list (map (\<lambda>c. category_level_items c + subcategory_level_items c) cats))"
proof (induction cats arbitrary: n)
  case Nil
  show ?case by simp
next
  case (Cons c cats)
  then show ?case
    by (simp add: count_category_sum add.assoc)
qed

lemma count_pages_sum:
  "list_all is_page_record pages \<Longrightarrow>
   count_pages pages (cc, ic) =
     Inr (cc + sum_list (map (\<lambda>p. length (categories_of_page p)) pages),
          ic + sum_list (map (\<lambda>p. sum_list (map (\<lambda>c. category_level_items c +
                 subcategory_level_items c) (categories_of_page p))) pages))"
proof (induction pages arbitrary: cc ic)
  case Nil
  show ?case by simp
next
  case (Cons p pages)
  from Cons.prems have hp: "is_page_record p" and rest: "list_all is_page_record pages"
    by simp_all
  from hp obtain cats where
    g: "groups_of ''categories'' p = Some cats" and wc: "list_all is_category_record cats"
    by (auto simp: is_page_record_def split: option.splits)
  from g obtain d where d: "p = JObj d"
    by (cases p) simp_all
  from g d have v: "dict_get d ''categories'' (JList []) = JList cats"
    by (auto simp: dict_get_def split: option.splits json.splits)
  show ?case
    using Cons.IH [OF rest] g
    by (simp add: d v count_categories_sum [OF wc] categories_of_page_def add.assoc)
qed

text \<open>
  Claim C9.  For a stored stage document, the item count that \<open>get_job\<close> reports is the
  sum, over every category record of every page, of the number of items in all its
  category-level item groups plus the number of items in all its subcategory-level item
  groups; the category count is the number of category records.
\<close>

theorem get_job_item_count_sums_both_groupings:
  assumes "is_stage_document doc"
  shows "get_job_counts doc =
     Inr (sum_list (map (\<lambda>p. length (categories_of_page p)) (document_pages doc)),
          sum_list (map (\<lambda>p. sum_list (map (\<lambda>c. category_level_items c +
                 subcategory_level_items c) (categories_of_page p))) (document_pages doc)))"
proof -
  from assms obtain pages where
    g: "groups_of ''pages'' doc = Some pages" and wp: "list_all is_page_record pages"
    by (auto simp: is_stage_document_def split: option.splits)
  from g obtain d where d: "doc = JObj d"
    by (cases doc) simp_all
  show ?thesis
  proof (cases "d = []")
    case True
    with g d have "pages = []" by simp
    with True d g show ?thesis
      by (simp add: get_job_counts_def document_pages_def)
  next
    case False
    from g d have v: "dict_get d ''pages'' (JList []) = JList pages"
      by (auto simp: dict_get_def split: option.splits json.splits)
    show ?thesis
      using False g count_pages_sum [OF wp, of 0 0]
      by (simp add: get_job_counts_def d v document_pages_def)
  qed
qed

theorem get_job_item_count_example:
  "is_stage_document example_stage2_document \<and>
   get_job_counts example_stage2_document = Inr (1, 5)"
  using get_job_item_count_sums_both_groupings [of example_stage2_document]
  by (simp add: example_stage2_document_def is_stage_document_def is_page_record_def
      is_category_record_def document_pages_def categories_of_page_def category_level_items_def
      subcategory_level_items_def)


section \<open>The retry loop\<close>

declare retry_loop.simps [simp del]

lemma attempt_body_last:
  "attempt_body E U False le N = attempt_body E U False le' N'"
  by (auto simp: attempt_body_def Let_def split: sum.splits option.splits intro!: ext)

lemma attempt_body_const:
  assumes "\<And>l. N l = c"
  shows "attempt_body E U b le N = attempt_body E U b le' N"
proof -
  have "N = (\<lambda>l. c)" using assms by auto
  then show ?thesis by (simp add: attempt_body_def)
qed

text \<open>While an attempt is still to be made, the value of \<open>last_error\<close> has no influence on
  the loop: the statement after the loop, which reads it, is never reached.\<close>

lemma retry_loop_last_error:
  "attempt < max_retries U \<Longrightarrow> retry_loop E U attempt le = retry_loop E U attempt None"
proof (induction "max_retries U - attempt" arbitrary: attempt le)
  case 0
  then show ?case by simp
next
  case (Suc n)
  have unf: "\<And>l. retry_loop E U attempt l =
      attempt_body E U (attempt < max_retries U - 1) l (\<lambda>l'. retry_loop E U (Suc attempt) l')"
    using Suc.prems by (simp add: retry_loop.simps [of E U attempt])
  show ?case
  proof (cases "attempt < max_retries U - 1")
    case True
    then have lt: "Suc attempt < max_retries U" by simp
    from Suc.hyps(2) have n: "n = max_retries U - Suc attempt" by simp
    have c: "\<And>l. retry_loop E U (Suc attempt) l = retry_loop E U (Suc attempt) None"
      using Suc.hyps(1) [OF n lt] .
    show ?thesis
      unfolding unf by (rule attempt_body_const) (rule c)
  next
    case False
    then show ?thesis
      unfolding unf by (simp add: attempt_body_last [of E U le _ None])
  qed
qed

lemma retry_loop_unfold:
  assumes a: "attempt < max_retries U" and p: "prompt U = Inr p"
  shows "retry_loop E U attempt le =
     Generate (Request p (''data:image/png;base64,'' @ page_image U) (response_schema U))
       (\<lambda>r. case attempt_failure E U r of
               Some e \<Rightarrow> if attempt < max_retries U - 1
                         then Sleep 1 (retry_loop E U (Suc attempt) None) else Raise e
             | None \<Rightarrow> Return (result U (projr (model_validate E (response_schema U)
                          (projr (loads E (projr (response_content r))))))))"
proof -
  have n1: "attempt < max_retries U - 1 \<Longrightarrow>
     retry_loop E U (Suc attempt) (Some e) = retry_loop E U (Suc attempt) None" for e
    by (rule retry_loop_last_error) simp
  have n2: "attempt < max_retries U - 1 \<Longrightarrow>
     retry_loop E U (Suc attempt) le = retry_loop E U (Suc attempt) None"
    by (rule retry_loop_last_error) simp
  show ?thesis
    using a p
    apply (simp add: retry_loop.simps [of E U attempt] attempt_body_def Let_def)
    apply (rule ext)
    apply (auto simp: attempt_failure_def n1 n2 split: sum.splits option.splits)
    done
qed

lemma retry_step_failure:
  assumes "prompt U = Inr p" and "attempt < max_retries U"
    and "attempt_failure E U r = Some e"
  shows "run_coro (retry_loop E U attempt le) (r # rs) =
     (if attempt < max_retries U - 1
      then map_option (\<lambda>(out, calls, slept). (out, Suc calls, slept + 1))
             (run_coro (retry_loop E U (Suc attempt) None) rs)
      else Some (Inl e, 1, 0))"
  using assms
  by (simp add: retry_loop_unfold [OF assms(2) assms(1)] option.map_comp comp_def
      case_prod_unfold)

lemma retry_step_success:
  assumes "prompt U = Inr p" and "attempt < max_retries U"
    and "response_content r = Inr raw" and "loads E raw = Inr data"
    and "model_validate E (response_schema U) data = Inr validated"
  shows "run_coro (retry_loop E U attempt le) (r # rs) = Some (Inr (result U validated), 1, 0)"
  using assms
  by (simp add: retry_loop_unfold [OF assms(2) assms(1)] attempt_failure_def)

lemma retry_loop_exhausts:
  assumes p: "prompt U = Inr p"
  shows "length rs = max_retries U - attempt \<Longrightarrow> attempt < max_retries U \<Longrightarrow>
     \<forall>r\<in>set rs. attempt_failure E U r \<noteq> None \<Longrightarrow>
     run_coro (retry_loop E U attempt le) (rs @ rest) =
       Some (Inl (the (attempt_failure E U (last rs))), length rs, length rs - 1)"
proof (induction rs arbitrary: attempt le)
  case Nil
  then show ?case by simp
next
  case (Cons r rs)
  from Cons.prems(3) obtain e where e: "attempt_failure E U r = Some e" by auto
  from Cons.prems(1) have L: "Suc (length rs) = max_retries U - attempt" by simp
  show ?case
  proof (cases "attempt < max_retries U - 1")
    case True
    from True Cons.prems(1,2) have l: "length rs = max_retries U - Suc attempt"
      and lt: "Suc attempt < max_retries U"
      by simp_all
    from True L have "length rs \<noteq> 0" by arith
    then have ne: "rs \<noteq> []" by simp
    from Cons.prems(3) have f: "\<forall>r\<in>set rs. attempt_failure E U r \<noteq> None" by simp
    show ?thesis
      using True ne Cons.IH [OF l lt f, of None]
      by (simp add: retry_step_failure [OF p Cons.prems(2) e])
  next
    case False
    from False L Cons.prems(2) have "length rs = 0" by arith
    then have "rs = []" by simp
    with False e show ?thesis
      by (simp add: retry_step_failure [OF p Cons.prems(2) e])
  qed
qed

lemma example_env_sel [simp]:
  "render example_env = (\<lambda>template variables. Inr template)"
  "json_loads example_env = example_loads"
  "model_validate example_env = example_validate"
  "validated_categories example_env = example_categories"
  "convert_to_images example_env = example_images"
  "py_str example_env = example_str"
  "environ_MAX_CONCURRENCY example_env = None"
  by (simp_all add: example_env_def)

lemma example_str_small [simp]:
  "example_str (JInt 0) = ''0''" "example_str (JInt 1) = ''1''" "example_str (JInt 2) = ''2''"
  "example_str (JStr s) = s"
  by (simp_all add: example_str_def str_nat.simps [of 0] str_nat.simps [of "Suc 0"]
      str_nat.simps [of 2])



text \<open>
  Claim C8.  Take any attempt of any unit, and two replies of the LLM: one that is JSON
  but fails schema validation with the exception \<open>ev\<close>, one that is not JSON.  While
  attempts remain, the unit does the same thing on both: it sleeps one second and enters
  the next attempt, from where the run goes on in the same way.  On the last attempt it
  raises in both cases: the validation exception itself, or the \<open>ValueError\<close> made from
  the parse error.  There is no path on which a validation failure ends the unit while
  attempts remain.
\<close>

theorem validation_failure_retried_like_parse_failure:
  assumes "prompt U = Inr p" and "attempt < max_retries U"
    and "response_content rv = Inr rawv" and "loads E rawv = Inr data"
    and "model_validate E (response_schema U) data = Inl ev"
    and "response_content rj = Inr rawj" and "loads E rawj = Inl (JSONDecodeError msg pos)"
  shows "if attempt < max_retries U - 1 then
           run_coro (retry_loop E U attempt le) (rv # rs) =
             map_option (\<lambda>(out, calls, slept). (out, Suc calls, slept + 1))
               (run_coro (retry_loop E U (Suc attempt) None) rs)
         \<and> run_coro (retry_loop E U attempt le) (rj # rs) =
             map_option (\<lambda>(out, calls, slept). (out, Suc calls, slept + 1))
               (run_coro (retry_loop E U (Suc attempt) None) rs)
         else
           run_coro (retry_loop E U attempt le) (rv # rs) = Some (Inl ev, 1, 0)
         \<and> run_coro (retry_loop E U attempt le) (rj # rs) =
             Some (Inl (ValueError (invalid_json U (error_msg E pos msg))), 1, 0)"
proof -
  have v: "attempt_failure E U rv = Some ev"
    using assms(3-5) by (simp add: attempt_failure_def)
  have j: "attempt_failure E U rj = Some (ValueError (invalid_json U (error_msg E pos msg)))"
    using assms(6,7) by (simp add: attempt_failure_def)
  show ?thesis
    by (simp add: retry_step_failure [OF assms(1,2) v] retry_step_failure [OF assms(1,2) j])
qed

theorem validation_failure_retried_example:
  "run_coro (Phase2_extract_category example_env ''Roma'' (JInt 1) ''image1''
               [(''name_raw'', JStr ''Pizza'')])
     [Response [Some ''{}''], Response [Some ''{items}'']] =
     Some (Inr [(''name_raw'', JStr ''Pizza''), (''category_items'', JList [])], 2, 1)
   \<and> run_coro (Phase2_extract_category example_env ''Roma'' (JInt 1) ''image1''
               [(''name_raw'', JStr ''Pizza'')])
     [Response [Some ''Pizza''], Response [Some ''{items}'']] =
     Some (Inr [(''name_raw'', JStr ''Pizza''), (''category_items'', JList [])], 2, 1)"
proof -
  let ?U = "Phase2_unit example_env ''Roma'' (JInt 1) ''image1'' [(''name_raw'', JStr ''Pizza'')]"
  have p: "prompt ?U = Inr ''phase2.j2''"
    by (simp add: Phase2_unit_def phase2_prompt_def)
  have m: "max_retries ?U = 3" and s: "response_schema ?U = CategoryWithItems"
    and r: "result ?U = (\<lambda>validated. validated)"
    by (simp_all add: Phase2_unit_def)
  have n: "run_coro (retry_loop example_env ?U (Suc 0) None) [Response [Some ''{items}'']] =
      Some (Inr [(''name_raw'', JStr ''Pizza''), (''category_items'', JList [])], 1, 0)"
    using retry_step_success [where U = "?U" and p = "''phase2.j2''" and attempt = "Suc 0"
        and E = example_env and r = "Response [Some ''{items}'']" and raw = "Some ''{items}''"
        and data = "JObj [(''name_raw'', JStr ''Pizza''), (''category_items'', JList [])]"
        and validated = "[(''name_raw'', JStr ''Pizza''), (''category_items'', JList [])]"
        and le = None and rs = "[]"]
    by (simp add: p m s r response_content_def loads_def example_loads_def
        example_validate_def required_field_def)
  show ?thesis
    using validation_failure_retried_like_parse_failure [where U = "?U"
        and p = "''phase2.j2''" and attempt = 0 and E = example_env
        and rv = "Response [Some ''{}'']" and rawv = "Some ''{}''" and data = "JObj []"
        and ev = "ValidationError ''name_raw: Field required''"
        and rj = "Response [Some ''Pizza'']" and rawj = "Some ''Pizza''"
        and msg = "''Expecting value''" and pos = 0
        and le = None and rs = "[Response [Some ''{items}'']]"]
    by (simp add: p m s n Phase2_extract_category_def response_content_def loads_def
        example_loads_def example_validate_def required_field_def)
qed

lemma retry_loop_Generate:
  assumes "attempt < max_retries U" and "prompt U = Inr p"
  obtains k where
    "retry_loop E U attempt le =
       Generate (Request p (''data:image/png;base64,'' @ page_image U) (response_schema U)) k"
    and "\<And>r raw data validated. response_content r = Inr raw \<Longrightarrow> loads E raw = Inr data \<Longrightarrow>
           model_validate E (response_schema U) data = Inr validated \<Longrightarrow>
           k r = Return (result U validated)"
    and "\<And>r e. attempt_failure E U r = Some e \<Longrightarrow>
           k r = (if attempt < max_retries U - 1
                  then Sleep 1 (retry_loop E U (Suc attempt) None) else Raise e)"
proof -
  let ?k = "\<lambda>r. case attempt_failure E U r of
               Some e \<Rightarrow> if attempt < max_retries U - 1
                         then Sleep 1 (retry_loop E U (Suc attempt) None) else Raise e
             | None \<Rightarrow> Return (result U (projr (model_validate E (response_schema U)
                          (projr (loads E (projr (response_content r)))))))"
  show thesis
  proof (rule that [of ?k])
    show "retry_loop E U attempt le =
       Generate (Request p (''data:image/png;base64,'' @ page_image U) (response_schema U)) ?k"
      by (rule retry_loop_unfold [OF assms])
  next
    fix r raw data validated
    assume "response_content r = Inr raw" and "loads E raw = Inr data"
      and "model_validate E (response_schema U) data = Inr validated"
    then show "?k r = Return (result U validated)"
      by (simp add: attempt_failure_def)
  next
    fix r e
    assume "attempt_failure E U r = Some e"
    then show "?k r = (if attempt < max_retries U - 1
                  then Sleep 1 (retry_loop E U (Suc attempt) None) else Raise e)"
      by simp
  qed
qed

lemma example_Phase1_page:
  obtains k where
    "Phase1_extract_page example_env rn pn img =
       Generate (Request ''phase1.j2'' (''data:image/png;base64,'' @ img) Categories) k"
    and "k (Response [Some ''{categories}'']) =
       Return [(''page_number'', pn),
               (''data'', JObj [(''categories'', JList [JObj [(''name_raw'', JStr ''Pizza'')]])])]"
    and "k (Response [Some ''{}'']) =
       Sleep 1 (retry_loop example_env (Phase1_unit example_env rn pn img) (Suc 0) None)"
proof -
  let ?U = "Phase1_unit example_env rn pn img"
  have m: "0 < max_retries ?U" and p: "prompt ?U = Inr ''phase1.j2''"
    by (simp_all add: Phase1_unit_def phase1_prompt_def)
  from retry_loop_Generate [OF m p, of example_env None]
  obtain k where k: "retry_loop example_env ?U 0 None =
       Generate (Request ''phase1.j2'' (''data:image/png;base64,'' @ page_image ?U)
         (response_schema ?U)) k"
    and ok: "\<And>r raw data validated. response_content r = Inr raw \<Longrightarrow>
           loads example_env raw = Inr data \<Longrightarrow>
           model_validate example_env (response_schema ?U) data = Inr validated \<Longrightarrow>
           k r = Return (result ?U validated)"
    and ko: "\<And>r e. attempt_failure example_env ?U r = Some e \<Longrightarrow>
           k r = (if 0 < max_retries ?U - 1
                  then Sleep 1 (retry_loop example_env ?U (Suc 0) None) else Raise e)"
    by blast
  show thesis
  proof (rule that [of k])
    show "Phase1_extract_page example_env rn pn img =
       Generate (Request ''phase1.j2'' (''data:image/png;base64,'' @ img) Categories) k"
      using k by (simp add: Phase1_extract_page_def Phase1_unit_def)
    show "k (Response [Some ''{categories}'']) =
       Return [(''page_number'', pn),
               (''data'', JObj [(''categories'', JList [JObj [(''name_raw'', JStr ''Pizza'')]])])]"
      using ok [of "Response [Some ''{categories}'']" "Some ''{categories}''"
          "JObj [(''categories'', JList [JObj [(''name_raw'', JStr ''Pizza'')]])]"
          "[(''categories'', JList [JObj [(''name_raw'', JStr ''Pizza'')]])]"]
      by (simp add: response_content_def loads_def example_loads_def example_validate_def
          required_field_def Phase1_unit_def)
    show "k (Response [Some ''{}'']) =
       Sleep 1 (retry_loop example_env (Phase1_unit example_env rn pn img) (Suc 0) None)"
      using ko [of "Response [Some ''{}'']" "ValidationError ''categories: Field required''"]
      by (simp add: attempt_failure_def response_content_def loads_def example_loads_def
          example_validate_def required_field_def Phase1_unit_def)
  qed
qed

section \<open>The bounded fan-out\<close>

lemma those_map_nth:
  "those (map f xs) = Some ys \<Longrightarrow>
   length ys = length xs \<and> (\<forall>i<length xs. f (xs ! i) = Some (ys ! i))"
proof (induction xs arbitrary: ys)
  case Nil
  then show ?case by simp
next
  case (Cons x xs)
  from Cons.prems obtain y ys' where y: "f x = Some y" and ys': "those (map f xs) = Some ys'"
    and ys: "ys = y # ys'"
    by (auto split: option.splits)
  from Cons.IH [OF ys'] y ys show ?case
    by (auto simp: nth_Cons split: nat.splits)
qed

lemma length_slots_resume [simp]: "length (slots (resume g i c)) = length (slots g)"
  by (cases c) (simp_all add: resume_def)

lemma length_slots_step: "step g ev = Some g' \<Longrightarrow> length (slots g') = length (slots g)"
  by (cases ev) (auto split: if_splits slot.splits coro.splits)





lemma outcome_Inr:
  assumes "outcome g = Some (Inr vs)"
  shows "length vs = length (slots g) \<and> (\<forall>j<length (slots g). slots g ! j = Finished (Inr (vs ! j)))"
proof -
  from assms have t: "those (map slot_result (slots g)) = Some vs"
    by (auto simp: outcome_def split: option.splits)
  from those_map_nth [OF t] have l: "length vs = length (slots g)"
    and n: "\<forall>j<length (slots g). slot_result (slots g ! j) = Some (vs ! j)"
    by simp_all
  have "slots g ! j = Finished (Inr (vs ! j))" if "j < length (slots g)" for j
  proof -
    from n that have "slot_result (slots g ! j) = Some (vs ! j)"
      by simp
    then show ?thesis
      by (cases "slots g ! j") (auto simp: slot_result_def split: sum.splits)
  qed
  with l show ?thesis
    by simp
qed



lemma slots_resume:
  "slots (resume g i c) =
     (slots g)[i := (case c of Return v \<Rightarrow> Finished (Inr v) | Raise e \<Rightarrow> Finished (Inl e)
                     | Generate req k \<Rightarrow> Active c | Sleep d c' \<Rightarrow> Active c)]"
  by (cases c) (simp_all add: resume_def)

lemma raised_resume:
  "raised (resume g i c) =
     (case c of Raise e \<Rightarrow> (case raised g of None \<Rightarrow> Some e | Some e0 \<Rightarrow> Some e0)
      | _ \<Rightarrow> raised g)"
  by (cases c) (simp_all add: resume_def)

lemma permits_resume:
  "permits (resume g i c) =
     (case c of Return v \<Rightarrow> Suc (permits g) | Raise e \<Rightarrow> Suc (permits g)
      | _ \<Rightarrow> permits g)"
  by (cases c) (simp_all add: resume_def)

lemma step_cases:
  assumes "step g ev = Some g'"
  obtains (admit) i c where "i < length (slots g)" and "slots g ! i = Pending c"
      and "0 < permits g" and "g' = resume (g\<lparr>permits := permits g - 1\<rparr>) i c"
      and "ev = Admit i"
    | (resumed) i c0 c where "i < length (slots g)" and "slots g ! i = Active c0"
      and "g' = resume g i c"
proof (cases ev)
  case (Admit i)
  with assms obtain c where "i < length (slots g)" and "slots g ! i = Pending c"
    and "0 < permits g" and "g' = resume (g\<lparr>permits := permits g - 1\<rparr>) i c"
    by (auto split: if_splits slot.splits)
  with Admit show ?thesis
    by (rule_tac admit)
next
  case (Deliver i r)
  with assms obtain req k where "i < length (slots g)"
    and "slots g ! i = Active (Generate req k)" and "g' = resume g i (k r)"
    by (auto split: if_splits slot.splits coro.splits)
  then show ?thesis
    by (rule resumed)
next
  case (Wake i)
  with assms obtain d c where "i < length (slots g)"
    and "slots g ! i = Active (Sleep d c)" and "g' = resume g i c"
    by (auto split: if_splits slot.splits coro.splits)
  then show ?thesis
    by (rule resumed)
qed

lemma step_unfinished:
  assumes "step g ev = Some g'"
  obtains i c p where "i < length (slots g)" and "\<forall>r. slots g ! i \<noteq> Finished r"
    and "g' = resume (g\<lparr>permits := p\<rparr>) i c"
proof (rule step_cases [OF assms])
  fix i c
  assume "i < length (slots g)" and "slots g ! i = Pending c"
    and "g' = resume (g\<lparr>permits := permits g - 1\<rparr>) i c"
  then show thesis
    by (rule_tac that [of i "permits g - 1" c]) simp_all
next
  fix i c0 c
  assume "i < length (slots g)" and "slots g ! i = Active c0" and "g' = resume g i c"
  then show thesis
    by (rule_tac that [of i "permits g" c]) simp_all
qed

lemma step_raised_mono:
  assumes "step g ev = Some g'" and "raised g = Some e"
  shows "raised g' = Some e"
proof -
  from assms(1) obtain i c p where "g' = resume (g\<lparr>permits := p\<rparr>) i c"
    by (rule step_unfinished)
  with assms(2) show ?thesis
    by (cases c) (simp_all add: raised_resume)
qed

lemma steps_raised_mono:
  "steps g evs = Some g' \<Longrightarrow> raised g = Some e \<Longrightarrow> raised g' = Some e"
proof (induction evs arbitrary: g)
  case Nil
  then show ?case by simp
next
  case (Cons ev evs)
  from Cons.prems(1) obtain g1 where s: "step g ev = Some g1" and r: "steps g1 evs = Some g'"
    by (auto split: option.splits)
  from Cons.IH [OF r step_raised_mono [OF s Cons.prems(2)]] show ?case .
qed

lemma step_failure_recorded:
  assumes s: "step g ev = Some g'" and f: "failure_recorded g"
  shows "failure_recorded g'"
proof -
  from s obtain i c p where i: "i < length (slots g)"
    and u: "\<forall>r. slots g ! i \<noteq> Finished r"
    and g': "g' = resume (g\<lparr>permits := p\<rparr>) i c"
    by (rule step_unfinished)
  let ?new = "case c of Return v \<Rightarrow> Finished (Inr v) | Raise e \<Rightarrow> Finished (Inl e)
                     | Generate req k \<Rightarrow> Active c | Sleep d c' \<Rightarrow> Active c"
  have sl: "slots g' = (slots g)[i := ?new]"
    using g' by (simp add: slots_resume)
  have ra: "raised g' = (case c of Raise e \<Rightarrow> (case raised g of None \<Rightarrow> Some e
                                        | Some e0 \<Rightarrow> Some e0) | _ \<Rightarrow> raised g)"
    using g' by (cases c) (simp_all add: raised_resume)
  have a: "raised g' \<noteq> None" if j: "j < length (slots g')" and h: "has_failed (slots g' ! j)"
    for j
  proof (cases "j = i")
    case True
    with h i sl obtain e where "c = Raise e"
      by (cases c) auto
    with ra show ?thesis
      by (simp split: option.splits)
  next
    case False
    with h j sl have "has_failed (slots g ! j)" and "j < length (slots g)"
      by simp_all
    with f have "raised g \<noteq> None"
      by (simp add: failure_recorded_def)
    with ra show ?thesis
      by (auto split: coro.splits)
  qed
  have b: "\<exists>j<length (slots g'). slots g' ! j = Finished (Inl e)" if r: "raised g' = Some e"
    for e
  proof (cases "raised g")
    case None
    with r ra have "c = Raise e"
      by (cases c) simp_all
    with i sl have "i < length (slots g')" and "slots g' ! i = Finished (Inl e)"
      by simp_all
    then show ?thesis
      by blast
  next
    case (Some e0)
    with r ra have "e0 = e"
      by (cases c) simp_all
    with Some f obtain j where j: "j < length (slots g)" and sj: "slots g ! j = Finished (Inl e)"
      by (auto simp: failure_recorded_def)
    with u have "j \<noteq> i"
      by auto
    with j sj sl have "j < length (slots g')" and "slots g' ! j = Finished (Inl e)"
      by simp_all
    then show ?thesis
      by blast
  qed
  from a b show ?thesis
    by (simp add: failure_recorded_def)
qed

lemma steps_failure_recorded:
  "steps g evs = Some g' \<Longrightarrow> failure_recorded g \<Longrightarrow> failure_recorded g'"
proof (induction evs arbitrary: g)
  case Nil
  then show ?case by simp
next
  case (Cons ev evs)
  from Cons.prems(1) obtain g1 where s: "step g ev = Some g1" and r: "steps g1 evs = Some g'"
    by (auto split: option.splits)
  from Cons.IH [OF r step_failure_recorded [OF s Cons.prems(2)]] show ?case .
qed

lemma failure_recorded_start: "failure_recorded (gather_start n us)"
  by (simp add: failure_recorded_def gather_start_def)

lemma length_slots_steps: "steps g evs = Some g' \<Longrightarrow> length (slots g') = length (slots g)"
proof (induction evs arbitrary: g)
  case Nil
  then show ?case by simp
next
  case (Cons ev evs)
  from Cons.prems(1) obtain g1 where s: "step g ev = Some g1" and r: "steps g1 evs = Some g'"
    by (auto split: option.splits)
  from Cons.IH [OF r] length_slots_step [OF s] show ?case
    by simp
qed

lemma outcome_Inr_no_step:
  assumes "outcome g = Some (Inr vs)"
  shows "step g ev = None"
proof (cases "step g ev")
  case None
  then show ?thesis .
next
  case (Some g')
  then obtain i c p where "i < length (slots g)" and "\<forall>r. slots g ! i \<noteq> Finished r"
    by (rule step_unfinished)
  with outcome_Inr [OF assms] show ?thesis
    by auto
qed

lemma gather_run_raised:
  "steps g evs = Some g' \<Longrightarrow> raised g' = Some e \<Longrightarrow>
   gather_run g (evs @ evs') = Some (Inl e)"
proof (induction evs arbitrary: g)
  case Nil
  then have "outcome g = Some (Inl e)"
    by (simp add: outcome_def)
  then show ?case
    by (cases evs') simp_all
next
  case (Cons ev evs)
  from Cons.prems(1) obtain g1 where s: "step g ev = Some g1" and r: "steps g1 evs = Some g'"
    by (auto split: option.splits)
  show ?case
  proof (cases "outcome g")
    case None
    with s Cons.IH [OF r Cons.prems(2)] show ?thesis
      by simp
  next
    case (Some res)
    show ?thesis
    proof (cases res)
      case (Inl e0)
      with Some have "raised g = Some e0"
        by (auto simp: outcome_def split: option.splits)
      from steps_raised_mono [OF Cons.prems(1) this] Cons.prems(2) have "e0 = e"
        by simp
      with Some Inl show ?thesis
        by simp
    next
      case (Inr vs)
      with Some outcome_Inr_no_step [of g vs ev] s show ?thesis
        by simp
    qed
  qed
qed

lemma steps_append:
  "steps g (evs @ evs') = (case steps g evs of None \<Rightarrow> None | Some g' \<Rightarrow> steps g' evs')"
  by (induction evs arbitrary: g) (simp_all split: option.splits)

text \<open>A task that ends, driven to its end: its slot holds the outcome, the permit is
  back, and its exception, if it raised and was the first to do so, is recorded.\<close>

lemma drive_steps:
  "i < length (slots g) \<Longrightarrow> run_coro c rs = Some (out, n, t) \<Longrightarrow>
   steps (resume g i c) (drive i c rs) =
     Some (g\<lparr>slots := (slots g)[i := Finished out], permits := Suc (permits g),
            raised := (case out of
                         Inl e \<Rightarrow> (case raised g of None \<Rightarrow> Some e | Some e0 \<Rightarrow> Some e0)
                       | Inr v \<Rightarrow> raised g)\<rparr>)"
proof (induction i c rs arbitrary: g out n t rule: drive.induct)
  case (1 i v rs)
  then show ?case
    by (auto simp: resume_def)
next
  case (2 i e rs)
  then show ?case
    by (auto simp: resume_def)
next
  case (3 i req k)
  then show ?case
    by simp
next
  case (4 i req k r rs)
  let ?a = "g\<lparr>slots := (slots g)[i := Active (Generate req k)]\<rparr>"
  from "4.prems"(2) obtain n' t' where r: "run_coro (k r) rs = Some (out, n', t')"
    by auto
  have i1: "i < length (slots ?a)"
    using "4.prems"(1) by simp
  have e: "resume g i (Generate req k) = ?a"
    by (simp add: resume_def)
  have s: "step ?a (Deliver i r) = Some (resume ?a i (k r))"
    using "4.prems"(1) by simp
  have "steps ?a (Deliver i r # drive i (k r) rs) = steps (resume ?a i (k r)) (drive i (k r) rs)"
    by (simp only: steps.simps s option.case)
  also have "\<dots> = Some (?a\<lparr>slots := (slots ?a)[i := Finished out],
       permits := Suc (permits ?a),
       raised := (case out of
                    Inl e \<Rightarrow> (case raised ?a of None \<Rightarrow> Some e | Some e0 \<Rightarrow> Some e0)
                  | Inr v \<Rightarrow> raised ?a)\<rparr>)"
    by (rule "4.IH" [OF i1 r])
  also have "\<dots> = Some (g\<lparr>slots := (slots g)[i := Finished out],
       permits := Suc (permits g),
       raised := (case out of
                    Inl e \<Rightarrow> (case raised g of None \<Rightarrow> Some e | Some e0 \<Rightarrow> Some e0)
                  | Inr v \<Rightarrow> raised g)\<rparr>)"
    by (cases out) simp_all
  finally show ?case
    by (simp only: e drive.simps)
next
  case (5 i d c rs)
  let ?a = "g\<lparr>slots := (slots g)[i := Active (Sleep d c)]\<rparr>"
  from "5.prems"(2) obtain n' t' where r: "run_coro c rs = Some (out, n', t')"
    by auto
  have i1: "i < length (slots ?a)"
    using "5.prems"(1) by simp
  have e: "resume g i (Sleep d c) = ?a"
    by (simp add: resume_def)
  have s: "step ?a (Wake i) = Some (resume ?a i c)"
    using "5.prems"(1) by simp
  have "steps ?a (Wake i # drive i c rs) = steps (resume ?a i c) (drive i c rs)"
    by (simp only: steps.simps s option.case)
  also have "\<dots> = Some (?a\<lparr>slots := (slots ?a)[i := Finished out],
       permits := Suc (permits ?a),
       raised := (case out of
                    Inl e \<Rightarrow> (case raised ?a of None \<Rightarrow> Some e | Some e0 \<Rightarrow> Some e0)
                  | Inr v \<Rightarrow> raised ?a)\<rparr>)"
    by (rule "5.IH" [OF i1 r])
  also have "\<dots> = Some (g\<lparr>slots := (slots g)[i := Finished out],
       permits := Suc (permits g),
       raised := (case out of
                    Inl e \<Rightarrow> (case raised g of None \<Rightarrow> Some e | Some e0 \<Rightarrow> Some e0)
                  | Inr v \<Rightarrow> raised g)\<rparr>)"
    by (cases out) simp_all
  finally show ?case
    by (simp only: e drive.simps)
qed

lemma returned_state_insert:
  assumes "i < length coros"
  shows "(returned_state n coros vs D)\<lparr>slots :=
            (slots (returned_state n coros vs D))[i := Finished (Inr (vs ! i))]\<rparr> =
         returned_state n coros vs (insert i D)"
proof -
  have "(map (\<lambda>i. if i \<in> D then Finished (Inr (vs ! i)) else Pending (coros ! i))
           [0..<length coros])[i := Finished (Inr (vs ! i))] =
        map (\<lambda>j. if j \<in> insert i D then Finished (Inr (vs ! j)) else Pending (coros ! j))
           [0..<length coros]"
    using assms by (intro nth_equalityI) (auto simp: nth_list_update)
  then show ?thesis
    by (simp add: returned_state_def)
qed

lemma admit_and_drive:
  assumes "0 < n" and "i < length coros" and "i \<notin> D"
    and "run_coro (coros ! i) rs = Some (Inr (vs ! i), k, t)"
  shows "steps (returned_state n coros vs D) (Admit i # drive i (coros ! i) rs) =
         Some (returned_state n coros vs (insert i D))"
proof -
  let ?g = "returned_state n coros vs D"
  let ?h = "?g\<lparr>permits := permits ?g - 1\<rparr>"
  have l: "i < length (slots ?h)"
    using assms(2) by (simp add: returned_state_def)
  have a: "step ?g (Admit i) = Some (resume ?h i (coros ! i))"
    using assms(1-3) by (simp add: returned_state_def)
  have "steps ?g (Admit i # drive i (coros ! i) rs) =
        steps (resume ?h i (coros ! i)) (drive i (coros ! i) rs)"
    by (simp only: steps.simps a option.case)
  also have "\<dots> = Some (?h\<lparr>slots := (slots ?h)[i := Finished (Inr (vs ! i))],
       permits := Suc (permits ?h),
       raised := (case (Inr (vs ! i) :: exn + dict) of
                    Inl e \<Rightarrow> (case raised ?h of None \<Rightarrow> Some e | Some e0 \<Rightarrow> Some e0)
                  | Inr v \<Rightarrow> raised ?h)\<rparr>)"
    by (rule drive_steps [OF l assms(4)])
  also have "\<dots> = Some (?g\<lparr>slots := (slots ?g)[i := Finished (Inr (vs ! i))]\<rparr>)"
    using assms(1) by (simp add: returned_state_def)
  finally show ?thesis
    by (simp only: returned_state_insert [OF assms(2)])
qed

lemma schedule_steps:
  assumes "0 < n"
  shows "distinct order \<Longrightarrow> set order \<subseteq> {..<length coros} \<Longrightarrow> set order \<inter> D = {} \<Longrightarrow>
     \<forall>i\<in>set order. \<exists>k t. run_coro (coros ! i) (rss ! i) = Some (Inr (vs ! i), k, t) \<Longrightarrow>
     steps (returned_state n coros vs D) (schedule coros rss order) =
       Some (returned_state n coros vs (D \<union> set order))"
proof (induction order arbitrary: D)
  case Nil
  then show ?case
    by (simp add: schedule_def)
next
  case (Cons i order)
  from Cons.prems have i: "i < length coros" and nd: "i \<notin> D"
    by auto
  from Cons.prems(4) obtain k t
    where r: "run_coro (coros ! i) (rss ! i) = Some (Inr (vs ! i), k, t)"
    by auto
  from Cons.prems have d: "distinct order" and s: "set order \<subseteq> {..<length coros}"
    and e: "set order \<inter> insert i D = {}"
    and u: "\<forall>i\<in>set order. \<exists>k t. run_coro (coros ! i) (rss ! i) = Some (Inr (vs ! i), k, t)"
    by auto
  have "schedule coros rss (i # order) =
        (Admit i # drive i (coros ! i) (rss ! i)) @ schedule coros rss order"
    by (simp add: schedule_def)
  then have "steps (returned_state n coros vs D) (schedule coros rss (i # order)) =
        steps (returned_state n coros vs (insert i D)) (schedule coros rss order)"
    using admit_and_drive [OF assms i nd r]
    by (simp only: steps_append option.case)
  with Cons.IH [OF d s e u] show ?case
    by simp
qed

lemma those_map_Some: "those (map Some xs) = Some xs"
  by (induction xs) simp_all

lemma outcome_all_returned:
  assumes "length vs = length coros"
  shows "outcome (returned_state n coros vs {..<length coros}) = Some (Inr vs)"
proof -
  have "map slot_result (slots (returned_state n coros vs {..<length coros})) =
        map Some (map (\<lambda>i. vs ! i) [0..<length vs])"
    using assms by (simp add: returned_state_def slot_result_def)
  also have "\<dots> = map Some vs"
    by (simp only: map_nth)
  finally show ?thesis
    by (simp add: outcome_def returned_state_def those_map_Some)
qed

lemma gather_run_steps_Inr:
  "steps g evs = Some g' \<Longrightarrow> outcome g' = Some (Inr vs) \<Longrightarrow>
   gather_run g evs = Some (Inr vs)"
proof (induction evs arbitrary: g)
  case Nil
  then show ?case by simp
next
  case (Cons ev evs)
  from Cons.prems(1) obtain g1 where s: "step g ev = Some g1" and r: "steps g1 evs = Some g'"
    by (auto split: option.splits)
  show ?case
  proof (cases "outcome g")
    case None
    with s Cons.IH [OF r Cons.prems(2)] show ?thesis
      by simp
  next
    case (Some res)
    show ?thesis
    proof (cases res)
      case (Inl e)
      with Some have "raised g = Some e"
        by (auto simp: outcome_def split: option.splits)
      from steps_raised_mono [OF Cons.prems(1) this] Cons.prems(2) show ?thesis
        by (simp add: outcome_def)
    next
      case (Inr vs0)
      with Some outcome_Inr_no_step [of g vs0 ev] s show ?thesis
        by simp
    qed
  qed
qed

lemma bounded_gather_schedule:
  assumes "0 < mc" and "length vs = length coros"
    and "\<forall>i<length coros. map_option fst (run_coro (coros ! i) (rss ! i)) = Some (Inr (vs ! i))"
    and "distinct order" and "set order = {..<length coros}"
  shows "bounded_gather mc coros (schedule coros rss order) = Some (Inr vs)"
proof -
  have r: "\<forall>i\<in>set order. \<exists>k t. run_coro (coros ! i) (rss ! i) = Some (Inr (vs ! i), k, t)"
    using assms(3,5) by fastforce
  have n: "0 < nat mc"
    using assms(1) by simp
  have "map Pending coros = map (\<lambda>i. Pending (coros ! i)) [0..<length coros]"
    by (intro nth_equalityI) simp_all
  then have st: "gather_start (nat mc) coros = returned_state (nat mc) coros vs {}"
    by (simp add: gather_start_def returned_state_def)
  have "steps (returned_state (nat mc) coros vs {}) (schedule coros rss order) =
        Some (returned_state (nat mc) coros vs ({} \<union> set order))"
    by (rule schedule_steps [OF n assms(4) _ _ r]) (simp_all add: assms(5))
  then have "steps (gather_start (nat mc) coros) (schedule coros rss order) =
        Some (returned_state (nat mc) coros vs {..<length coros})"
    by (simp add: st assms(5))
  from gather_run_steps_Inr [OF this outcome_all_returned [OF assms(2)]] assms(1)
  show ?thesis
    by (simp add: bounded_gather_def)
qed


lemma example_Phase1_run:
  "run_coro (Phase1_extract_page example_env rn pn img) (Response [Some ''{categories}''] # rs) =
     Some (Inr [(''page_number'', pn),
                (''data'', JObj [(''categories'', JList [JObj [(''name_raw'', JStr ''Pizza'')]])])],
           1, 0)"
  "run_coro (Phase1_extract_page example_env rn pn img)
     (Response [Some ''{}''] # Response [Some ''{categories}''] # rs) =
     Some (Inr [(''page_number'', pn),
                (''data'', JObj [(''categories'', JList [JObj [(''name_raw'', JStr ''Pizza'')]])])],
           2, 1)"
proof -
  let ?U = "Phase1_unit example_env rn pn img"
  let ?d = "[(''categories'', JList [JObj [(''name_raw'', JStr ''Pizza'')]])]"
  have p: "prompt ?U = Inr ''phase1.j2''" and m: "max_retries ?U = 2"
    and s: "response_schema ?U = Categories"
    and r: "result ?U ?d = [(''page_number'', pn), (''data'', JObj ?d)]"
    by (simp_all add: Phase1_unit_def phase1_prompt_def)
  have ok: "run_coro (retry_loop example_env ?U a None) (Response [Some ''{categories}''] # rs) =
      Some (Inr [(''page_number'', pn), (''data'', JObj ?d)], 1, 0)" if "a < 2" for a
    using retry_step_success [where U = "?U" and p = "''phase1.j2''" and attempt = a
        and E = example_env and r = "Response [Some ''{categories}'']"
        and raw = "Some ''{categories}''" and data = "JObj ?d" and validated = "?d"
        and le = None and rs = rs] that
    by (simp add: p m s r response_content_def loads_def example_loads_def
        example_validate_def required_field_def)
  show "run_coro (Phase1_extract_page example_env rn pn img)
      (Response [Some ''{categories}''] # rs) =
     Some (Inr [(''page_number'', pn), (''data'', JObj ?d)], 1, 0)"
    using ok [of 0] by (simp add: Phase1_extract_page_def)
  have f: "attempt_failure example_env ?U (Response [Some ''{}'']) =
      Some (ValidationError ''categories: Field required'')"
    by (simp add: attempt_failure_def response_content_def loads_def example_loads_def
        example_validate_def required_field_def s)
  show "run_coro (Phase1_extract_page example_env rn pn img)
      (Response [Some ''{}''] # Response [Some ''{categories}''] # rs) =
     Some (Inr [(''page_number'', pn), (''data'', JObj ?d)], 2, 1)"
    using retry_step_failure [where U = "?U" and p = "''phase1.j2''" and attempt = 0
        and E = example_env and r = "Response [Some ''{}'']"
        and e = "ValidationError ''categories: Field required''" and le = None
        and rs = "Response [Some ''{categories}''] # rs"] ok [of "Suc 0"]
    by (simp add: p m f Phase1_extract_page_def)
qed

text \<open>The example of the specification: three units submitted as A, B, C under the
  limit 4, admitted together and answered in the order C, B, A.\<close>

lemma bounded_gather_reversed_completion:
  "bounded_gather 4
     [Phase1_extract_page example_env ''Roma'' (JInt 1) ''image1'',
      Phase1_extract_page example_env ''Roma'' (JInt 2) ''image2'',
      Phase1_extract_page example_env ''Roma'' (JInt 3) ''image3'']
     [Admit 0, Admit 1, Admit 2,
      Deliver 2 (Response [Some ''{categories}'']),
      Deliver 1 (Response [Some ''{categories}'']),
      Deliver 0 (Response [Some ''{categories}''])] =
     Some (Inr
       [[(''page_number'', JInt 1),
         (''data'', JObj [(''categories'', JList [JObj [(''name_raw'', JStr ''Pizza'')]])])],
        [(''page_number'', JInt 2),
         (''data'', JObj [(''categories'', JList [JObj [(''name_raw'', JStr ''Pizza'')]])])],
        [(''page_number'', JInt 3),
         (''data'', JObj [(''categories'', JList [JObj [(''name_raw'', JStr ''Pizza'')]])])]])"
proof -
  let ?d = "JObj [(''categories'', JList [JObj [(''name_raw'', JStr ''Pizza'')]])]"
  obtain k1 where u1: "Phase1_extract_page example_env ''Roma'' (JInt 1) ''image1'' =
       Generate (Request ''phase1.j2'' (''data:image/png;base64,'' @ ''image1'') Categories) k1"
    and r1: "k1 (Response [Some ''{categories}'']) =
       Return [(''page_number'', JInt 1), (''data'', ?d)]"
    by (rule example_Phase1_page)
  obtain k2 where u2: "Phase1_extract_page example_env ''Roma'' (JInt 2) ''image2'' =
       Generate (Request ''phase1.j2'' (''data:image/png;base64,'' @ ''image2'') Categories) k2"
    and r2: "k2 (Response [Some ''{categories}'']) =
       Return [(''page_number'', JInt 2), (''data'', ?d)]"
    by (rule example_Phase1_page)
  obtain k3 where u3: "Phase1_extract_page example_env ''Roma'' (JInt 3) ''image3'' =
       Generate (Request ''phase1.j2'' (''data:image/png;base64,'' @ ''image3'') Categories) k3"
    and r3: "k3 (Response [Some ''{categories}'']) =
       Return [(''page_number'', JInt 3), (''data'', ?d)]"
    by (rule example_Phase1_page)
  show ?thesis
    by (simp add: u1 u2 u3 r1 r2 r3 bounded_gather_def gather_start_def outcome_def
        slot_result_def resume_def)
qed


lemma failed_unit_fails_fan_out:
  assumes "steps (gather_start (nat mc) coros) evs = Some g"
    and "0 \<le> mc"
    and "i < length coros" and "slots g ! i = Finished (Inl e)"
  shows "\<exists>e0. raised g = Some e0
           \<and> (\<exists>j<length coros. slots g ! j = Finished (Inl e0))
           \<and> ((\<forall>j<length coros. j \<noteq> i \<longrightarrow> \<not> has_failed (slots g ! j)) \<longrightarrow> e0 = e)
           \<and> bounded_gather mc coros (evs @ evs') = Some (Inl e0)
           \<and> run_stage mc (Gather coros k) ((evs @ evs') # ss) = Some (Inl e0, ss)"
proof -
  have l: "length (slots g) = length coros"
    using length_slots_steps [OF assms(1)] by (simp add: gather_start_def)
  have f: "failure_recorded g"
    by (rule steps_failure_recorded [OF assms(1) failure_recorded_start])
  from assms(3,4) l have "i < length (slots g)" and "has_failed (slots g ! i)"
    by simp_all
  with f obtain e0 where e0: "raised g = Some e0"
    by (auto simp: failure_recorded_def)
  with f l obtain j where j: "j < length coros" and sj: "slots g ! j = Finished (Inl e0)"
    by (auto simp: failure_recorded_def)
  have only: "e0 = e" if "\<forall>j<length coros. j \<noteq> i \<longrightarrow> \<not> has_failed (slots g ! j)"
  proof -
    from that j sj have "j = i"
      by auto
    with sj assms(4) show ?thesis
      by simp
  qed
  have b: "bounded_gather mc coros (evs @ evs') = Some (Inl e0)"
    using gather_run_raised [OF assms(1) e0] assms(2) by (simp add: bounded_gather_def)
  then have "run_stage mc (Gather coros k) ((evs @ evs') # ss) = Some (Inl e0, ss)"
    by simp
  with e0 j sj only b show ?thesis
    by blast
qed

lemma schedule_snoc:
  "schedule coros rss (order @ [i]) =
     schedule coros rss order @ (Admit i # drive i (coros ! i) (rss ! i))"
  by (simp add: schedule_def)

lemma schedule_steps_failure:
  assumes n: "0 < n" and i: "i < length coros"
    and r: "run_coro (coros ! i) (rss ! i) = Some (Inl e, k, t)"
    and d: "distinct order" and s: "set order \<subseteq> {..<length coros} - {i}"
    and u: "\<forall>j\<in>set order. \<exists>k t. run_coro (coros ! j) (rss ! j) = Some (Inr (vs ! j), k, t)"
  shows "\<exists>g. steps (gather_start n coros) (schedule coros rss (order @ [i])) = Some g \<and>
             raised g = Some e"
proof -
  let ?g = "returned_state n coros vs (set order)"
  let ?h = "?g\<lparr>permits := permits ?g - 1\<rparr>"
  have "map Pending coros = map (\<lambda>i. Pending (coros ! i)) [0..<length coros]"
    by (intro nth_equalityI) simp_all
  then have st: "gather_start n coros = returned_state n coros vs {}"
    by (simp add: gather_start_def returned_state_def)
  have "steps (returned_state n coros vs {}) (schedule coros rss order) =
        Some (returned_state n coros vs ({} \<union> set order))"
    using s by (intro schedule_steps [OF n d _ _ u]) auto
  then have a: "steps (gather_start n coros) (schedule coros rss order) = Some ?g"
    by (simp add: st)
  from s have ni: "i \<notin> set order"
    by auto
  have l: "i < length (slots ?h)"
    using i by (simp add: returned_state_def)
  have b: "step ?g (Admit i) = Some (resume ?h i (coros ! i))"
    using n i ni by (simp add: returned_state_def)
  let ?f = "?h\<lparr>slots := (slots ?h)[i := Finished (Inl e)], permits := Suc (permits ?h),
       raised := (case (Inl e :: exn + dict) of
                    Inl e \<Rightarrow> (case raised ?h of None \<Rightarrow> Some e | Some e0 \<Rightarrow> Some e0)
                  | Inr v \<Rightarrow> raised ?h)\<rparr>"
  have "steps ?g (Admit i # drive i (coros ! i) (rss ! i)) =
        steps (resume ?h i (coros ! i)) (drive i (coros ! i) (rss ! i))"
    by (simp only: steps.simps b option.case)
  also have "\<dots> = Some ?f"
    by (rule drive_steps [OF l r])
  finally have c: "steps ?g (Admit i # drive i (coros ! i) (rss ! i)) = Some ?f" .
  have "steps (gather_start n coros) (schedule coros rss (order @ [i])) = Some ?f"
    by (simp only: schedule_snoc steps_append a c option.case)
  moreover have "raised ?f = Some e"
    by (simp add: returned_state_def)
  ultimately show ?thesis
    by blast
qed

text \<open>
  Claim C4.  Let unit \<open>i\<close> of a fan-out fail for good: run on the replies meant for it, it
  uses up its attempts and raises \<open>e\<close>.  Let the units in \<open>order\<close> be siblings that return
  results, and let the event loop complete them first and then unit \<open>i\<close>.  Then the
  fan-out does not return the results of the siblings: its caller receives \<open>e\<close>, whatever
  happens afterwards (\<open>evs'\<close>).  The driver of the stage, which is at that point
  \<open>Gather coros k\<close>, ends with \<open>e\<close>: the rest of the driver \<open>k\<close>, which would go on to the
  next pages and build the stage document, is not run, so the caller gets neither a
  partial document nor a document in which the failed unit is left out.

  The same holds at any moment of any run: if in the state \<open>g\<close> reached by the events \<open>evs\<close>
  some unit has failed, then the fan-out has raised the exception \<open>e0\<close> of the unit that
  failed first (which is this unit's exception when no other unit has failed), and the
  driver ends with \<open>e0\<close>.
\<close>

theorem unit_failure_fails_stage:
  assumes "0 < max_concurrency" and "i < length coros"
    and "map_option fst (run_coro (coros ! i) (rss ! i)) = Some (Inl e)"
    and "distinct order" and "set order \<subseteq> {..<length coros} - {i}"
    and "\<forall>j\<in>set order. map_option fst (run_coro (coros ! j) (rss ! j)) = Some (Inr (vs ! j))"
  shows "bounded_gather max_concurrency coros (schedule coros rss (order @ [i]) @ evs') =
           Some (Inl e)
       \<and> run_stage max_concurrency (Gather coros k)
           ((schedule coros rss (order @ [i]) @ evs') # ss) = Some (Inl e, ss)
       \<and> (\<forall>evs g j e1.
            steps (gather_start (nat max_concurrency) coros) evs = Some g \<and>
            j < length coros \<and> slots g ! j = Finished (Inl e1) \<longrightarrow>
            (\<exists>e0. raised g = Some e0
               \<and> (\<exists>j'<length coros. slots g ! j' = Finished (Inl e0))
               \<and> ((\<forall>j'<length coros. j' \<noteq> j \<longrightarrow> \<not> has_failed (slots g ! j')) \<longrightarrow> e0 = e1)
               \<and> bounded_gather max_concurrency coros (evs @ evs') = Some (Inl e0)
               \<and> run_stage max_concurrency (Gather coros k) ((evs @ evs') # ss) =
                   Some (Inl e0, ss)))"
proof -
  from assms(3) obtain n t where r: "run_coro (coros ! i) (rss ! i) = Some (Inl e, n, t)"
    by fastforce
  have u: "\<forall>j\<in>set order. \<exists>k t. run_coro (coros ! j) (rss ! j) = Some (Inr (vs ! j), k, t)"
    using assms(6) by fastforce
  have m: "0 < nat max_concurrency"
    using assms(1) by simp
  from schedule_steps_failure [OF m assms(2) r assms(4,5) u]
  obtain g where g: "steps (gather_start (nat max_concurrency) coros)
        (schedule coros rss (order @ [i])) = Some g"
    and e: "raised g = Some e"
    by blast
  have a: "bounded_gather max_concurrency coros (schedule coros rss (order @ [i]) @ evs') =
      Some (Inl e)"
    using gather_run_raised [OF g e] assms(1) by (simp add: bounded_gather_def)
  then have b: "run_stage max_concurrency (Gather coros k)
      ((schedule coros rss (order @ [i]) @ evs') # ss) = Some (Inl e, ss)"
    by simp
  have c: "\<exists>e0. raised g = Some e0
       \<and> (\<exists>j'<length coros. slots g ! j' = Finished (Inl e0))
       \<and> ((\<forall>j'<length coros. j' \<noteq> j \<longrightarrow> \<not> has_failed (slots g ! j')) \<longrightarrow> e0 = e1)
       \<and> bounded_gather max_concurrency coros (evs @ evs') = Some (Inl e0)
       \<and> run_stage max_concurrency (Gather coros k) ((evs @ evs') # ss) = Some (Inl e0, ss)"
    if "steps (gather_start (nat max_concurrency) coros) evs = Some g"
      and "j < length coros" and "slots g ! j = Finished (Inl e1)" for evs g j e1
    using failed_unit_fails_fan_out [OF that(1) _ that(2,3)] assms(1) by simp
  from a b c show ?thesis
    by blast
qed

lemma example_Phase1_fail:
  "run_coro (Phase1_extract_page example_env rn (JInt 2) img)
     (Response [Some ''Sorry''] # Response [Some ''No menu''] # rs) =
     Some (Inl (ValueError (''LLM returned invalid JSON for page 2: ''
                  @ ''JSON decode error at position 0: Expecting value'')), 2, 1)"
proof -
  let ?U = "Phase1_unit example_env rn (JInt 2) img"
  have p: "prompt ?U = Inr ''phase1.j2''" and m: "max_retries ?U = 2"
    by (simp_all add: Phase1_unit_def phase1_prompt_def)
  have f: "attempt_failure example_env ?U (Response [Some ''Sorry'']) =
      Some (ValueError (''LLM returned invalid JSON for page 2: ''
                  @ ''JSON decode error at position 0: Expecting value''))"
    "attempt_failure example_env ?U (Response [Some ''No menu'']) =
      Some (ValueError (''LLM returned invalid JSON for page 2: ''
                  @ ''JSON decode error at position 0: Expecting value''))"
    by (simp_all add: attempt_failure_def response_content_def loads_def example_loads_def
        error_msg_def Phase1_unit_def)
  from retry_loop_exhausts [OF p, of "[Response [Some ''Sorry''], Response [Some ''No menu'']]"
      0 example_env None rs]
  show ?thesis
    by (simp add: m f Phase1_extract_page_def)
qed

theorem unit_failure_fails_stage_example:
  "run_stage 4 (Phase1_extract_all_pages example_env ''Roma'' ''two.pdf'')
     [schedule
        [Phase1_extract_page example_env ''Roma'' (JInt 1) ''image1'',
         Phase1_extract_page example_env ''Roma'' (JInt 2) ''image2'']
        [[Response [Some ''{categories}'']],
         [Response [Some ''Sorry''], Response [Some ''No menu'']]]
        [0, 1]] =
     Some (Inl (ValueError (''LLM returned invalid JSON for page 2: ''
                  @ ''JSON decode error at position 0: Expecting value'')), [])"
proof -
  let ?us = "[Phase1_extract_page example_env ''Roma'' (JInt 1) ''image1'',
         Phase1_extract_page example_env ''Roma'' (JInt 2) ''image2'']"
  let ?rss = "[[Response [Some ''{categories}'']],
         [Response [Some ''Sorry''], Response [Some ''No menu'']]]"
  let ?d = "JObj [(''categories'', JList [JObj [(''name_raw'', JStr ''Pizza'')]])]"
  let ?vs = "[[(''page_number'', JInt 1), (''data'', ?d)]]"
  let ?e = "ValueError (''LLM returned invalid JSON for page 2: ''
                  @ ''JSON decode error at position 0: Expecting value'')"
  have st: "Phase1_extract_all_pages example_env ''Roma'' ''two.pdf'' =
      Gather ?us (\<lambda>pages. Done (document ''Roma'' pages))"
    by (simp add: Phase1_extract_all_pages_def example_images_def enumerate_eq_zip
        upt_conv_Cons)
  have h1: "(0::int) < 4"
    by simp
  have h2: "Suc 0 < length ?us"
    by simp
  have h3: "map_option fst (run_coro (?us ! Suc 0) (?rss ! Suc 0)) = Some (Inl ?e)"
    by (simp add: example_Phase1_fail del: run_coro.simps)
  have h4: "distinct [0 :: nat]"
    by simp
  have h5: "set [0 :: nat] \<subseteq> {..<length ?us} - {Suc 0}"
    by simp
  have h6: "\<forall>j\<in>set [0 :: nat].
      map_option fst (run_coro (?us ! j) (?rss ! j)) = Some (Inr (?vs ! j))"
    by (simp add: example_Phase1_run del: run_coro.simps)
  from unit_failure_fails_stage [OF h1 h2 h3 h4 h5 h6,
      of "[]" "\<lambda>pages. Done (document ''Roma'' pages)" "[]"]
  show ?thesis
    by (simp add: st)
qed

section \<open>The fan-outs of a stage\<close>

lemma fanouts_pages_loop:
  assumes "\<forall>p\<in>set pages. \<exists>fin. body p = Gather (units p) (\<lambda>rs. Done (fin rs))"
  shows "fanouts (pages_loop body rn pages acc) rss = map units (take (Suc (length rss)) pages)"
  using assms
proof (induction pages arbitrary: acc rss)
  case Nil
  then show ?case by simp
next
  case (Cons p pages)
  from Cons.prems obtain fin where b: "body p = Gather (units p) (\<lambda>rs. Done (fin rs))"
    by auto
  from Cons.prems have r: "\<forall>p\<in>set pages. \<exists>fin. body p = Gather (units p) (\<lambda>rs. Done (fin rs))"
    by simp
  show ?case
  proof (cases rss)
    case Nil
    with b show ?thesis by simp
  next
    case (Cons rs rss')
    with b Cons.IH [OF r] show ?thesis by simp
  qed
qed

lemma Phase2_page_Gather:
  assumes "Phase2_prepare_page E images page = Inr x"
  shows "\<exists>fin. Phase2_page E rn images page =
           Gather (Phase2_page_units E rn images page) (\<lambda>rs. Done (fin rs))"
  using assms
  by (cases x) (auto simp: Phase2_page_def Phase2_page_units_def Phase2_extract_page_def)

lemma Phase3_page_Gather:
  assumes "Phase3_prepare_page E images page = Inr x"
  shows "\<exists>fin. Phase3_page E rn images page =
           Gather (Phase3_page_units E rn images page) (\<lambda>rs. Done (fin rs))"
  using assms
  by (cases x) (auto simp: Phase3_page_def Phase3_page_units_def Phase3_extract_page_def)

lemma Phase4_page_Gather:
  assumes "Phase4_prepare_page E images pair = Inr x"
  shows "\<exists>fin. Phase4_page E rn images pair =
           Gather (Phase4_page_units E rn images pair) (\<lambda>rs. Done (fin rs))"
  using assms
  by (cases x) (auto simp: Phase4_page_def Phase4_page_units_def Phase4_extract_page_def)

lemma filter_update_count:
  "i < length xs \<Longrightarrow>
   length (filter P (xs[i := y])) + (if P (xs ! i) then 1 else 0) =
   length (filter P xs) + (if P y then 1 else 0)"
proof (induction xs arbitrary: i)
  case Nil
  then show ?case by simp
next
  case (Cons x xs)
  show ?case
  proof (cases i)
    case 0
    then show ?thesis by simp
  next
    case (Suc j)
    with Cons.prems have "j < length xs" by simp
    from Cons.IH [OF this] Suc show ?thesis by simp
  qed
qed

lemma step_permits:
  assumes s: "step g ev = Some g'" and inv: "active_count g + permits g = n"
  shows "active_count g' + permits g' = n"
proof (rule step_cases [OF s])
  fix i c
  assume i: "i < length (slots g)" and p: "slots g ! i = Pending c" and f: "0 < permits g"
    and g': "g' = resume (g\<lparr>permits := permits g - 1\<rparr>) i c"
  let ?new = "case c of Return v \<Rightarrow> Finished (Inr v) | Raise e \<Rightarrow> Finished (Inl e)
                     | Generate req k \<Rightarrow> Active c | Sleep d c' \<Rightarrow> Active c"
  from filter_update_count [OF i, of is_active ?new] p
  have a: "active_count g' = active_count g + (if is_active ?new then 1 else 0)"
    by (simp add: active_count_def g' slots_resume)
  from a f inv show ?thesis
    by (cases c) (simp_all add: g' permits_resume)
next
  fix i c0 c
  assume i: "i < length (slots g)" and p: "slots g ! i = Active c0" and g': "g' = resume g i c"
  let ?new = "case c of Return v \<Rightarrow> Finished (Inr v) | Raise e \<Rightarrow> Finished (Inl e)
                     | Generate req k \<Rightarrow> Active c | Sleep d c' \<Rightarrow> Active c"
  from filter_update_count [OF i, of is_active ?new] p
  have a: "active_count g' + 1 = active_count g + (if is_active ?new then 1 else 0)"
    by (simp add: active_count_def g' slots_resume)
  from a inv show ?thesis
    by (cases c) (simp_all add: g' permits_resume)
qed

lemma steps_permits:
  "steps g evs = Some g' \<Longrightarrow> active_count g + permits g = n \<Longrightarrow>
   active_count g' + permits g' = n"
proof (induction evs arbitrary: g)
  case Nil
  then show ?case by simp
next
  case (Cons ev evs)
  from Cons.prems(1) obtain g1 where s: "step g ev = Some g1" and r: "steps g1 evs = Some g'"
    by (auto split: option.splits)
  from Cons.IH [OF r step_permits [OF s Cons.prems(2)]] show ?case .
qed

lemma gather_start_permits: "active_count (gather_start n coros) + permits (gather_start n coros) = n"
  by (simp add: active_count_def gather_start_def filter_map comp_def)

lemma fan_out_bounded:
  assumes "steps (gather_start n coros) evs = Some g"
  shows "active_count g + permits g = n"
    and "i < length coros \<Longrightarrow> slots g ! i = Pending c \<Longrightarrow>
         (step g (Admit i) = None) = (active_count g = n)"
proof -
  show inv: "active_count g + permits g = n"
    by (rule steps_permits [OF assms gather_start_permits])
  have l: "length (slots g) = length coros"
    using length_slots_steps [OF assms] by (simp add: gather_start_def)
  show "(step g (Admit i) = None) = (active_count g = n)"
    if "i < length coros" and "slots g ! i = Pending c"
    using that l inv by auto
qed

lemma ebind_eq_Inr: "(ebind m f = Inr y) = (\<exists>x. m = Inr x \<and> f x = Inr y)"
  by (cases m) simp_all

lemma example_Phase2_prepare:
  "Phase2_prepare_page example_env [''image1'', ''image2'']
     (JObj [(''page_number'', JInt 1),
            (''data'', JObj [(''categories'', JList [JObj [(''name_raw'', JStr ''Pizza'')]])])]) =
     Inr (JInt 1, ''image1'', [[(''name_raw'', JStr ''Pizza'')]])"
  "Phase2_prepare_page example_env [''image1'', ''image2'']
     (JObj [(''page_number'', JInt 2),
            (''data'', JObj [(''categories'', JList [JObj [(''name_raw'', JStr ''Pasta'')]])])]) =
     Inr (JInt 2, ''image2'', [[(''name_raw'', JStr ''Pasta'')]])"
  by (simp_all add: Phase2_prepare_page_def page_image_at_def list_index_def
      example_categories_def example_validate_def required_field_def dict_get_def)

lemma example_stage1_pages:
  "ebind (py_getitem (JObj example_stage1_document) ''pages'') py_iter =
     Inr [JObj [(''page_number'', JInt 1),
                (''data'', JObj [(''categories'', JList [JObj [(''name_raw'', JStr ''Pizza'')]])])],
          JObj [(''page_number'', JInt 2),
                (''data'', JObj [(''categories'', JList [JObj [(''name_raw'', JStr ''Pasta'')]])])]]"
  by (simp add: example_stage1_document_def)

text \<open>
  Claim C3 does not hold as stated.  Stage 2 on a document of two pages with one category
  each performs two fan-outs of one unit each, the second one after the first has
  returned: the two units of the stage are never under one fan-out.
\<close>

theorem single_fan_out_counterexample:
  "map length
     (fanouts (Phase2_extract_all_pages example_env ''Roma'' example_stage1_document ''two.pdf'')
        [[[(''name_raw'', JStr ''Pizza''), (''category_items'', JList [])]]]) = [1, 1]"
  by (simp add: Phase2_extract_all_pages_def example_images_def example_stage1_pages
      Phase2_page_def example_Phase2_prepare Phase2_extract_page_def del: py_getitem.simps)

text \<open>
  Claim C3, amended.  Stage 1 submits the units of all pages of the PDF to one fan-out.
  Each of Stages 2 to 4 performs one fan-out for each page of its input, page after
  page: the units of a page (one for each category of the page, in Stage 4 one for each
  pair of a category and a base) are submitted when the fan-outs of the pages before it
  have returned (\<open>rss\<close> are their results).  In every fan-out, at every moment, the number
  of units that have been admitted and have not ended plus the number of free permits is
  the limit, and a waiting unit is refused admission exactly when the limit is reached.
  The limit is the \<open>max_concurrency\<close> given to the extractor or, when none or zero is given
  as in \<open>run_phase1\<close> .. \<open>run_phase4\<close>, the setting \<open>MAX_CONCURRENCY\<close>, which is 4 unless the
  environment sets it.
\<close>

theorem fan_out_per_page_bounded:
  assumes "convert_to_images E pdf_path = Inr images"
    and "ebind (py_getitem (JObj payload) ''pages'') py_iter = Inr pages"
    and "ebind (py_getitem (JObj bases_payload) ''pages'') py_iter = Inr base_pages"
  shows "fanouts (Phase1_extract_all_pages E rn pdf_path) rss =
           [map (\<lambda>(page_idx, img). Phase1_extract_page E rn (JInt (int page_idx)) img)
                (enumerate 1 images)]
       \<and> ((\<forall>page\<in>set pages. \<exists>x. Phase2_prepare_page E images page = Inr x) \<longrightarrow>
            fanouts (Phase2_extract_all_pages E rn payload pdf_path) rss =
              map (Phase2_page_units E rn images) (take (Suc (length rss)) pages))
       \<and> ((\<forall>page\<in>set pages. \<exists>x. Phase3_prepare_page E images page = Inr x) \<longrightarrow>
            fanouts (Phase3_extract_all_pages E rn payload pdf_path) rss =
              map (Phase3_page_units E rn images) (take (Suc (length rss)) pages))
       \<and> ((\<forall>pair\<in>set (zip pages base_pages). \<exists>x. Phase4_prepare_page E images pair = Inr x) \<longrightarrow>
            fanouts (Phase4_extract_all_pages E rn payload bases_payload pdf_path) rss =
              map (Phase4_page_units E rn images) (take (Suc (length rss)) (zip pages base_pages)))
       \<and> (\<forall>evs g. steps (gather_start (nat max_concurrency) coros) evs = Some g \<longrightarrow>
            active_count g + permits g = nat max_concurrency \<and>
            (\<forall>i c. i < length coros \<and> slots g ! i = Pending c \<longrightarrow>
               (step g (Admit i) = None) = (active_count g = nat max_concurrency)))
       \<and> extractor_max_concurrency E None = Settings_MAX_CONCURRENCY E
       \<and> extractor_max_concurrency E (Some 0) = Settings_MAX_CONCURRENCY E
       \<and> run_phase_max_concurrency E = Settings_MAX_CONCURRENCY E
       \<and> (environ_MAX_CONCURRENCY E = None \<longrightarrow> Settings_MAX_CONCURRENCY E = 4)"
proof -
  have p1: "fanouts (Phase1_extract_all_pages E rn pdf_path) rss =
           [map (\<lambda>(page_idx, img). Phase1_extract_page E rn (JInt (int page_idx)) img)
                (enumerate 1 images)]"
    using assms(1) by (cases rss) (simp_all add: Phase1_extract_all_pages_def)
  have p2: "fanouts (Phase2_extract_all_pages E rn payload pdf_path) rss =
              map (Phase2_page_units E rn images) (take (Suc (length rss)) pages)"
    if "\<forall>page\<in>set pages. \<exists>x. Phase2_prepare_page E images page = Inr x"
  proof -
    from that have "\<forall>p\<in>set pages. \<exists>fin. Phase2_page E rn images p =
        Gather (Phase2_page_units E rn images p) (\<lambda>rs. Done (fin rs))"
      using Phase2_page_Gather by blast
    from fanouts_pages_loop [OF this] assms(1,2) show ?thesis
      by (simp add: Phase2_extract_all_pages_def)
  qed
  have p3: "fanouts (Phase3_extract_all_pages E rn payload pdf_path) rss =
              map (Phase3_page_units E rn images) (take (Suc (length rss)) pages)"
    if "\<forall>page\<in>set pages. \<exists>x. Phase3_prepare_page E images page = Inr x"
  proof -
    from that have "\<forall>p\<in>set pages. \<exists>fin. Phase3_page E rn images p =
        Gather (Phase3_page_units E rn images p) (\<lambda>rs. Done (fin rs))"
      using Phase3_page_Gather by blast
    from fanouts_pages_loop [OF this] assms(1,2) show ?thesis
      by (simp add: Phase3_extract_all_pages_def)
  qed
  from assms(2) obtain ip where ip: "py_getitem (JObj payload) ''pages'' = Inr ip"
    and ips: "py_iter ip = Inr pages"
    by (auto simp: ebind_eq_Inr)
  from assms(3) obtain bp where bp: "py_getitem (JObj bases_payload) ''pages'' = Inr bp"
    and bps: "py_iter bp = Inr base_pages"
    by (auto simp: ebind_eq_Inr)
  have p4: "fanouts (Phase4_extract_all_pages E rn payload bases_payload pdf_path) rss =
              map (Phase4_page_units E rn images) (take (Suc (length rss)) (zip pages base_pages))"
    if "\<forall>pair\<in>set (zip pages base_pages). \<exists>x. Phase4_prepare_page E images pair = Inr x"
  proof -
    from that have "\<forall>p\<in>set (zip pages base_pages). \<exists>fin. Phase4_page E rn images p =
        Gather (Phase4_page_units E rn images p) (\<lambda>rs. Done (fin rs))"
      using Phase4_page_Gather by blast
    from fanouts_pages_loop [OF this] assms(1) ip ips bp bps show ?thesis
      by (simp add: Phase4_extract_all_pages_def)
  qed
  have b: "active_count g + permits g = nat max_concurrency \<and>
            (\<forall>i c. i < length coros \<and> slots g ! i = Pending c \<longrightarrow>
               (step g (Admit i) = None) = (active_count g = nat max_concurrency))"
    if "steps (gather_start (nat max_concurrency) coros) evs = Some g" for evs g
    using fan_out_bounded [OF that] by blast
  have s: "extractor_max_concurrency E None = Settings_MAX_CONCURRENCY E"
    "extractor_max_concurrency E (Some 0) = Settings_MAX_CONCURRENCY E"
    "run_phase_max_concurrency E = Settings_MAX_CONCURRENCY E"
    "environ_MAX_CONCURRENCY E = None \<longrightarrow> Settings_MAX_CONCURRENCY E = 4"
    by (simp_all add: extractor_max_concurrency_def run_phase_max_concurrency_def
        Settings_MAX_CONCURRENCY_def)
  from p1 p2 p3 p4 b s show ?thesis
    by blast
qed

theorem fan_out_per_page_example:
  "fanouts (Phase2_extract_all_pages example_env ''Roma'' example_stage1_document ''two.pdf'')
     [[[(''name_raw'', JStr ''Pizza''), (''category_items'', JList [])]]] =
     [[Phase2_extract_category example_env ''Roma'' (JInt 1) ''image1''
         [(''name_raw'', JStr ''Pizza'')]],
      [Phase2_extract_category example_env ''Roma'' (JInt 2) ''image2''
         [(''name_raw'', JStr ''Pasta'')]]]
   \<and> run_phase_max_concurrency example_env = 4"
proof -
  let ?p1 = "JObj [(''page_number'', JInt 1),
                (''data'', JObj [(''categories'', JList [JObj [(''name_raw'', JStr ''Pizza'')]])])]"
  let ?p2 = "JObj [(''page_number'', JInt 2),
                (''data'', JObj [(''categories'', JList [JObj [(''name_raw'', JStr ''Pasta'')]])])]"
  have h1: "convert_to_images example_env ''two.pdf'' = Inr [''image1'', ''image2'']"
    by (simp add: example_images_def)
  have h2: "\<forall>page\<in>set [?p1, ?p2].
      \<exists>x. Phase2_prepare_page example_env [''image1'', ''image2''] page = Inr x"
    by (simp add: example_Phase2_prepare)
  have h3: "environ_MAX_CONCURRENCY example_env = None"
    by simp
  from fan_out_per_page_bounded [OF h1 example_stage1_pages example_stage1_pages,
      of "''Roma''" "[[[(''name_raw'', JStr ''Pizza''), (''category_items'', JList [])]]]"]
    h2 h3
  show ?thesis
    by (simp add: Phase2_page_units_def example_Phase2_prepare)
qed

section \<open>Runs of the stage drivers\<close>

lemma bounded_gather_page_schedule:
  assumes "0 < mc" and "length vs = length us"
    and "\<forall>j<length us. map_option fst (run_coro (us ! j) (rss ! j)) = Some (Inr (vs ! j))"
  shows "bounded_gather mc us (page_schedule us rss) = Some (Inr vs)"
  unfolding page_schedule_def
  by (rule bounded_gather_schedule [OF assms]) auto


lemma emap_Inr:
  "emap f xs = Inr ys \<Longrightarrow> length ys = length xs \<and> (\<forall>j<length xs. f (xs ! j) = Inr (ys ! j))"
proof (induction xs arbitrary: ys)
  case Nil
  then show ?case by simp
next
  case (Cons x xs)
  from Cons.prems obtain y ys' where y: "f x = Inr y" and ys': "emap f xs = Inr ys'"
    and ys: "ys = y # ys'"
    by (auto split: sum.splits)
  from Cons.IH [OF ys'] y ys show ?case
    by (auto simp: nth_Cons split: nat.splits)
qed

lemma emap_Inl:
  "j < length xs \<Longrightarrow> f (xs ! j) = Inl e \<Longrightarrow> \<forall>i<j. \<exists>y. f (xs ! i) = Inr y \<Longrightarrow>
   emap f xs = Inl e"
proof (induction xs arbitrary: j)
  case Nil
  then show ?case by simp
next
  case (Cons x xs)
  show ?case
  proof (cases j)
    case 0
    with Cons.prems show ?thesis by simp
  next
    case (Suc k)
    with Cons.prems have k: "k < length xs" and f: "f (xs ! k) = Inl e"
      by simp_all
    from Cons.prems(3) Suc have x: "\<exists>y. f x = Inr y"
      by auto
    have "\<forall>i<k. \<exists>y. f (xs ! i) = Inr y"
    proof (intro allI impI)
      fix i
      assume "i < k"
      with Suc have "Suc i < j" by simp
      with Cons.prems(3) have "\<exists>y. f ((x # xs) ! Suc i) = Inr y" by blast
      then show "\<exists>y. f (xs ! i) = Inr y" by simp
    qed
    from Cons.IH [OF k f this] x show ?thesis
      by auto
  qed
qed

lemma validated_list_eq:
  assumes "ebind (py_getitem page ''categories'') py_iter = Inr cats"
  shows "validated_list E S page = emap (model_validate E S) cats"
  using assms by (auto simp: validated_list_def ebind_eq_Inr)

lemma Phase4_prepare_Inr:
  assumes "Phase4_prepare_page E images (page_items, page_bases) = Inr x"
  obtains page_number img cats bases where "x = (page_number, img, cats, bases)"
    and "py_getitem page_items ''page_number'' = Inr page_number"
    and "page_image_at images page_number = Inr img"
    and "validated_list E CategoryWithItems page_items = Inr cats"
    and "validated_list E CategoryBase page_bases = Inr bases"
  using assms by (auto simp: Phase4_prepare_page_def ebind_eq_Inr)

lemma Phase4_page_units_eq:
  assumes "py_getitem page_items ''page_number'' = Inr page_number"
    and "page_image_at images page_number = Inr img"
    and "validated_list E CategoryWithItems page_items = Inr cats"
    and "validated_list E CategoryBase page_bases = Inr bases"
  shows "Phase4_page_units E rn images (page_items, page_bases) =
           map (\<lambda>(cat, base). Phase4_extract_category_addons E rn page_number img cat base)
               (zip cats bases)"
    and "Phase4_page E rn images (page_items, page_bases) =
           Gather (Phase4_page_units E rn images (page_items, page_bases))
             (\<lambda>rs. Done (page_result page_number rs))"
  using assms
  by (simp_all add: Phase4_page_units_def Phase4_page_def Phase4_prepare_page_def
      Phase4_extract_page_def)

lemma Phase4_pages:
  assumes "convert_to_images E pdf_path = Inr images"
    and "ebind (py_getitem (JObj items_payload) ''pages'') py_iter = Inr item_pages"
    and "ebind (py_getitem (JObj bases_payload) ''pages'') py_iter = Inr base_pages"
  shows "Phase4_extract_all_pages E rn items_payload bases_payload pdf_path =
           pages_loop (Phase4_page E rn images) rn (zip item_pages base_pages) []"
proof -
  from assms(2) obtain ip where ip: "py_getitem (JObj items_payload) ''pages'' = Inr ip"
    and ips: "py_iter ip = Inr item_pages"
    by (auto simp: ebind_eq_Inr)
  from assms(3) obtain bp where bp: "py_getitem (JObj bases_payload) ''pages'' = Inr bp"
    and bps: "py_iter bp = Inr base_pages"
    by (auto simp: ebind_eq_Inr)
  from assms(1) ip ips bp bps show ?thesis
    by (simp add: Phase4_extract_all_pages_def)
qed

lemma example_items_pages:
  "ebind (py_getitem (JObj example_items_document) ''pages'') py_iter =
     Inr [JObj [(''page_number'', JInt 1),
                (''categories'', JList
                   [JObj [(''name_raw'', JStr ''Pizza'')],
                    JObj [(''name_raw'', JStr ''Pasta'')],
                    JObj [(''name_raw'', JStr ''Salad'')]])],
          JObj [(''page_number'', JInt 2),
                (''categories'', JList [JObj [(''name_raw'', JStr ''Dessert'')]])]]"
  by (simp add: example_items_document_def)

lemma example_bases_pages:
  "ebind (py_getitem (JObj example_bases_document) ''pages'') py_iter =
     Inr [JObj [(''page_number'', JInt 1),
                (''categories'', JList
                   [JObj [(''name_raw'', JStr ''Pasta''), (''base_price'', JInt 9)],
                    JObj [(''name_raw'', JStr ''Pizza''), (''base_price'', JInt 8)]])]]"
  by (simp add: example_bases_document_def)

lemma example_Phase4_prepare:
  "Phase4_prepare_page example_env [''image1'', ''image2'']
     (JObj [(''page_number'', JInt 1),
            (''categories'', JList
               [JObj [(''name_raw'', JStr ''Pizza'')],
                JObj [(''name_raw'', JStr ''Pasta'')],
                JObj [(''name_raw'', JStr ''Salad'')]])],
      JObj [(''page_number'', JInt 1),
            (''categories'', JList
               [JObj [(''name_raw'', JStr ''Pasta''), (''base_price'', JInt 9)],
                JObj [(''name_raw'', JStr ''Pizza''), (''base_price'', JInt 8)]])]) =
     Inr (JInt 1, ''image1'',
          [[(''name_raw'', JStr ''Pizza'')], [(''name_raw'', JStr ''Pasta'')],
           [(''name_raw'', JStr ''Salad'')]],
          [[(''name_raw'', JStr ''Pasta''), (''base_price'', JInt 9)],
           [(''name_raw'', JStr ''Pizza''), (''base_price'', JInt 8)]])"
  by (simp add: Phase4_prepare_page_def page_image_at_def list_index_def validated_list_def
      example_validate_def required_field_def)

text \<open>
  Claim C6.  Let the two input documents of Stage 4 have pages that pass the checks of
  the loop, and let the loop have come to page \<open>p\<close> (the fan-outs of the pages before it
  have returned \<open>rss\<close>).  The units submitted for page \<open>p\<close> are built from the page at
  position \<open>p\<close> of the Stage 2 document and the page at position \<open>p\<close> of the Stage 3
  document: with \<open>cats\<close> the categories of the one and \<open>bases\<close> the categories of the
  other, there are as many units as the shorter list has elements, and unit \<open>j\<close> is the
  call of \<open>extract_category_addons\<close> on the validated category \<open>cats ! j\<close> and the validated
  base \<open>bases ! j\<close>, with the page number and the image of the Stage 2 page.  No field of
  a category or a base is compared with one of the other.
\<close>

theorem Phase4_units_positional:
  assumes "convert_to_images E pdf_path = Inr images"
    and "ebind (py_getitem (JObj items_payload) ''pages'') py_iter = Inr item_pages"
    and "ebind (py_getitem (JObj bases_payload) ''pages'') py_iter = Inr base_pages"
    and "\<forall>pair\<in>set (zip item_pages base_pages). \<exists>x. Phase4_prepare_page E images pair = Inr x"
    and "p < length item_pages" and "p < length base_pages" and "p \<le> length rss"
    and "py_getitem (item_pages ! p) ''page_number'' = Inr page_number"
    and "page_image_at images page_number = Inr img"
    and "ebind (py_getitem (item_pages ! p) ''categories'') py_iter = Inr cats"
    and "ebind (py_getitem (base_pages ! p) ''categories'') py_iter = Inr bases"
  shows "length (fanouts (Phase4_extract_all_pages E rn items_payload bases_payload pdf_path)
                   rss ! p) = min (length cats) (length bases)
       \<and> (\<forall>j<min (length cats) (length bases).
            \<exists>c b. model_validate E CategoryWithItems (cats ! j) = Inr c
                \<and> model_validate E CategoryBase (bases ! j) = Inr b
                \<and> fanouts (Phase4_extract_all_pages E rn items_payload bases_payload pdf_path)
                     rss ! p ! j =
                   Phase4_extract_category_addons E rn page_number img c b)"
proof -
  let ?pairs = "zip item_pages base_pages"
  let ?st = "Phase4_extract_all_pages E rn items_payload bases_payload pdf_path"
  from assms(4) have "\<forall>q\<in>set ?pairs. \<exists>fin. Phase4_page E rn images q =
      Gather (Phase4_page_units E rn images q) (\<lambda>rs. Done (fin rs))"
    using Phase4_page_Gather by blast
  from fanouts_pages_loop [OF this]
  have "fanouts ?st rss = map (Phase4_page_units E rn images) (take (Suc (length rss)) ?pairs)"
    by (simp add: Phase4_pages [OF assms(1-3)])
  with assms(5-7)
  have f: "fanouts ?st rss ! p = Phase4_page_units E rn images (item_pages ! p, base_pages ! p)"
    by simp
  from assms(5,6) have "(item_pages ! p, base_pages ! p) \<in> set ?pairs"
    by (auto simp: set_zip)
  with assms(4) obtain x
    where "Phase4_prepare_page E images (item_pages ! p, base_pages ! p) = Inr x"
    by blast
  then obtain vc vb where vc: "validated_list E CategoryWithItems (item_pages ! p) = Inr vc"
    and vb: "validated_list E CategoryBase (base_pages ! p) = Inr vb"
    by (rule Phase4_prepare_Inr)
  from vc have "emap (model_validate E CategoryWithItems) cats = Inr vc"
    by (simp add: validated_list_eq [OF assms(10)])
  from emap_Inr [OF this] have lc: "length vc = length cats"
    and nc: "\<forall>j<length cats. model_validate E CategoryWithItems (cats ! j) = Inr (vc ! j)"
    by simp_all
  from vb have "emap (model_validate E CategoryBase) bases = Inr vb"
    by (simp add: validated_list_eq [OF assms(11)])
  from emap_Inr [OF this] have lb: "length vb = length bases"
    and nb: "\<forall>j<length bases. model_validate E CategoryBase (bases ! j) = Inr (vb ! j)"
    by simp_all
  have u: "fanouts ?st rss ! p =
      map (\<lambda>(cat, base). Phase4_extract_category_addons E rn page_number img cat base)
          (zip vc vb)"
    by (simp only: f Phase4_page_units_eq(1) [OF assms(8,9) vc vb])
  have a: "length (fanouts ?st rss ! p) = min (length cats) (length bases)"
    by (simp add: u lc lb)
  have b: "\<exists>c b. model_validate E CategoryWithItems (cats ! j) = Inr c
                \<and> model_validate E CategoryBase (bases ! j) = Inr b
                \<and> fanouts ?st rss ! p ! j =
                   Phase4_extract_category_addons E rn page_number img c b"
    if "j < min (length cats) (length bases)" for j
  proof -
    from that have "j < length cats" and "j < length bases"
      by simp_all
    with nc nb lc lb u show ?thesis
      by simp
  qed
  from a b show ?thesis
    by blast
qed

theorem Phase4_units_positional_example:
  "fanouts (Phase4_extract_all_pages example_env ''Roma'' example_items_document
              example_bases_document ''two.pdf'') [] ! 0 ! 1 =
     Phase4_extract_category_addons example_env ''Roma'' (JInt 1) ''image1''
       [(''name_raw'', JStr ''Pasta'')]
       [(''name_raw'', JStr ''Pizza''), (''base_price'', JInt 8)]
   \<and> length (fanouts (Phase4_extract_all_pages example_env ''Roma'' example_items_document
                example_bases_document ''two.pdf'') [] ! 0) = 2"
proof -
  let ?ip = "JObj [(''page_number'', JInt 1),
                (''categories'', JList
                   [JObj [(''name_raw'', JStr ''Pizza'')],
                    JObj [(''name_raw'', JStr ''Pasta'')],
                    JObj [(''name_raw'', JStr ''Salad'')]])]"
  let ?iq = "JObj [(''page_number'', JInt 2),
                (''categories'', JList [JObj [(''name_raw'', JStr ''Dessert'')]])]"
  let ?bp = "JObj [(''page_number'', JInt 1),
                (''categories'', JList
                   [JObj [(''name_raw'', JStr ''Pasta''), (''base_price'', JInt 9)],
                    JObj [(''name_raw'', JStr ''Pizza''), (''base_price'', JInt 8)]])]"
  have h1: "convert_to_images example_env ''two.pdf'' = Inr [''image1'', ''image2'']"
    by (simp add: example_images_def)
  have h4: "\<forall>pair\<in>set (zip [?ip, ?iq] [?bp]).
      \<exists>x. Phase4_prepare_page example_env [''image1'', ''image2''] pair = Inr x"
    by (simp add: example_Phase4_prepare)
  have h5: "0 < length [?ip, ?iq]" and h6: "0 < length [?bp]"
    and h7: "0 \<le> length ([] :: dict list list)"
    by simp_all
  have h8: "py_getitem ([?ip, ?iq] ! 0) ''page_number'' = Inr (JInt 1)"
    by simp
  have h9: "page_image_at [''image1'', ''image2''] (JInt 1) = Inr ''image1''"
    by (simp add: page_image_at_def list_index_def)
  have h10: "ebind (py_getitem ([?ip, ?iq] ! 0) ''categories'') py_iter =
      Inr [JObj [(''name_raw'', JStr ''Pizza'')], JObj [(''name_raw'', JStr ''Pasta'')],
           JObj [(''name_raw'', JStr ''Salad'')]]"
    by simp
  have h11: "ebind (py_getitem ([?bp] ! 0) ''categories'') py_iter =
      Inr [JObj [(''name_raw'', JStr ''Pasta''), (''base_price'', JInt 9)],
           JObj [(''name_raw'', JStr ''Pizza''), (''base_price'', JInt 8)]]"
    by simp
  note t = Phase4_units_positional [OF h1 example_items_pages example_bases_pages h4 h5 h6 h7
      h8 h9 h10 h11, of "''Roma''"]
  from t [THEN conjunct2, rule_format, of 1] t [THEN conjunct1] show ?thesis
    by (auto simp: example_validate_def required_field_def)
qed




lemma example_Phase4_run:
  "run_coro (Phase4_extract_category_addons example_env rn pn img c b)
     (Response [Some ''{items}''] # rs) =
     Some (Inr [(''name_raw'', JStr ''Pizza''), (''category_items'', JList [])], 1, 0)"
proof -
  let ?U = "Phase4_unit example_env rn pn img c b"
  let ?v = "[(''name_raw'', JStr ''Pizza''), (''category_items'', JList [])]"
  have p: "prompt ?U = Inr ''phase4.j2''" and m: "max_retries ?U = 2"
    and s: "response_schema ?U = CategoryItemAddons" and r: "result ?U ?v = ?v"
    by (simp_all add: Phase4_unit_def phase4_prompt_def)
  from retry_step_success [where U = "?U" and p = "''phase4.j2''" and attempt = 0
      and E = example_env and r = "Response [Some ''{items}'']"
      and raw = "Some ''{items}''" and data = "JObj ?v" and validated = "?v"
      and le = None and rs = rs]
  show ?thesis
    by (simp add: p m s r response_content_def loads_def example_loads_def
        example_validate_def required_field_def Phase4_extract_category_addons_def)
qed



section \<open>Validation of the input documents\<close>

lemma take_map_nth: "n \<le> length xs \<Longrightarrow> map (\<lambda>p. xs ! p) [0..<n] = take n xs"
  by (intro nth_equalityI) simp_all

text \<open>The loop over the pages, when a page makes the loop body raise after the pages
  before it have been processed.\<close>

lemma run_pages_loop_Fail:
  assumes "0 < mc"
  shows "\<forall>(p, rss, vs)\<in>set trs.
       (\<exists>fin. body p = Gather (units p) (\<lambda>rs. Done (fin rs))) \<and> length vs = length (units p) \<and>
       (\<forall>j<length (units p).
          map_option fst (run_coro (units p ! j) (rss ! j)) = Some (Inr (vs ! j))) \<Longrightarrow>
     body bad = Fail e \<Longrightarrow>
     run_stage mc (pages_loop body rn (map fst trs @ bad # rest) acc)
       (map (\<lambda>(p, rss, vs). page_schedule (units p) rss) trs @ ss) = Some (Inl e, ss)"
proof (induction trs arbitrary: acc)
  case Nil
  then show ?case by simp
next
  case (Cons tr trs)
  obtain p rss vs where tr: "tr = (p, rss, vs)"
    by (cases tr) auto
  from Cons.prems(1) tr obtain fin where b: "body p = Gather (units p) (\<lambda>rs. Done (fin rs))"
    and l: "length vs = length (units p)"
    and r: "\<forall>j<length (units p).
          map_option fst (run_coro (units p ! j) (rss ! j)) = Some (Inr (vs ! j))"
    by auto
  from Cons.prems(1) have rest: "\<forall>(p, rss, vs)\<in>set trs.
       (\<exists>fin. body p = Gather (units p) (\<lambda>rs. Done (fin rs))) \<and> length vs = length (units p) \<and>
       (\<forall>j<length (units p).
          map_option fst (run_coro (units p ! j) (rss ! j)) = Some (Inr (vs ! j)))"
    by simp
  have g: "bounded_gather mc (units p) (page_schedule (units p) rss) = Some (Inr vs)"
    by (rule bounded_gather_page_schedule [OF assms l r])
  from Cons.IH [OF rest Cons.prems(2), of "acc @ [fin vs]"] show ?case
    by (simp add: tr b g)
qed

lemma run_pages_loop_Fail_at:
  assumes mc: "0 < mc" and n: "n < length pages" and bad: "body (pages ! n) = Fail e"
    and good: "\<forall>p<n. \<exists>fin. body (pages ! p) = Gather (units (pages ! p)) (\<lambda>rs. Done (fin rs))"
    and ret: "pages_return units pages n rsss vss"
  shows "run_stage mc (pages_loop body rn pages []) (pages_events units pages n rsss @ ss) =
           Some (Inl e, ss)"
proof -
  let ?trs = "map (\<lambda>p. (pages ! p, rsss ! p, vss ! p)) [0..<n]"
  have ok: "\<forall>(p, rss, vs)\<in>set ?trs.
       (\<exists>fin. body p = Gather (units p) (\<lambda>rs. Done (fin rs))) \<and> length vs = length (units p) \<and>
       (\<forall>j<length (units p).
          map_option fst (run_coro (units p ! j) (rss ! j)) = Some (Inr (vs ! j)))"
    using good ret by (auto simp: pages_return_def)
  have "map (\<lambda>p. pages ! p) [0..<n] = take n pages"
    using n by (intro take_map_nth) simp
  moreover have "pages = take n pages @ pages ! n # drop (Suc n) pages"
    using n by (rule id_take_nth_drop)
  ultimately have p: "pages = map (\<lambda>p. pages ! p) [0..<n] @ pages ! n # drop (Suc n) pages"
    by simp
  have "run_stage mc
      (pages_loop body rn (map fst ?trs @ pages ! n # drop (Suc n) pages) [])
      (map (\<lambda>(p, rss, vs). page_schedule (units p) rss) ?trs @ ss) = Some (Inl e, ss)"
    by (rule run_pages_loop_Fail [OF mc ok bad])
  then have "run_stage mc
      (pages_loop body rn (map (\<lambda>p. pages ! p) [0..<n] @ pages ! n # drop (Suc n) pages) [])
      (pages_events units pages n rsss @ ss) = Some (Inl e, ss)"
    by (simp add: pages_events_def comp_def)
  with p show ?thesis
    by simp
qed

lemma Phase2_page_Fail:
  assumes "py_getitem page ''page_number'' = Inr page_number"
    and "page_image_at images page_number = Inr img"
    and "py_getitem page ''data'' = Inr data"
    and "validated_categories E data = Inl e"
  shows "Phase2_page E rn images page = Fail e"
  using assms by (simp add: Phase2_page_def Phase2_prepare_page_def)

lemma Phase3_page_Fail:
  assumes "py_getitem page ''page_number'' = Inr page_number"
    and "page_image_at images page_number = Inr img"
    and "validated_list E CategoryWithItems page = Inl e"
  shows "Phase3_page E rn images page = Fail e"
  using assms by (simp add: Phase3_page_def Phase3_prepare_page_def)

lemma Phase4_page_Fail_category:
  assumes "py_getitem page_items ''page_number'' = Inr page_number"
    and "page_image_at images page_number = Inr img"
    and "validated_list E CategoryWithItems page_items = Inl e"
  shows "Phase4_page E rn images (page_items, page_bases) = Fail e"
  using assms by (simp add: Phase4_page_def Phase4_prepare_page_def)

lemma Phase4_page_Fail_base:
  assumes "py_getitem page_items ''page_number'' = Inr page_number"
    and "page_image_at images page_number = Inr img"
    and "validated_list E CategoryWithItems page_items = Inr cats"
    and "validated_list E CategoryBase page_bases = Inl e"
  shows "Phase4_page E rn images (page_items, page_bases) = Fail e"
  using assms by (simp add: Phase4_page_def Phase4_prepare_page_def)

lemma validated_list_Inl:
  assumes "ebind (py_getitem page ''categories'') py_iter = Inr cats"
    and "j < length cats" and "model_validate E S (cats ! j) = Inl e"
    and "\<forall>i<j. \<exists>y. model_validate E S (cats ! i) = Inr y"
  shows "validated_list E S page = Inl e"
  using emap_Inl [OF assms(2,3,4)] by (simp add: validated_list_eq [OF assms(1)])

lemma emap_all_Inr:
  "\<forall>i<length xs. \<exists>y. f (xs ! i) = Inr y \<Longrightarrow> \<exists>ys. emap f xs = Inr ys"
proof (induction xs)
  case Nil
  then show ?case by simp
next
  case (Cons x xs)
  from Cons.prems have x: "\<exists>y. f x = Inr y"
    by auto
  have "\<forall>i<length xs. \<exists>y. f (xs ! i) = Inr y"
  proof (intro allI impI)
    fix i
    assume "i < length xs"
    then have "Suc i < length (x # xs)" by simp
    with Cons.prems have "\<exists>y. f ((x # xs) ! Suc i) = Inr y" by blast
    then show "\<exists>y. f (xs ! i) = Inr y" by simp
  qed
  from Cons.IH [OF this] x show ?case
    by auto
qed

lemma Phase2_pages:
  assumes "convert_to_images E pdf_path = Inr images"
    and "ebind (py_getitem (JObj payload) ''pages'') py_iter = Inr pages"
  shows "Phase2_extract_all_pages E rn payload pdf_path =
           pages_loop (Phase2_page E rn images) rn pages []"
  using assms by (simp add: Phase2_extract_all_pages_def)

lemma Phase3_pages:
  assumes "convert_to_images E pdf_path = Inr images"
    and "ebind (py_getitem (JObj payload) ''pages'') py_iter = Inr pages"
  shows "Phase3_extract_all_pages E rn payload pdf_path =
           pages_loop (Phase3_page E rn images) rn pages []"
  using assms by (simp add: Phase3_extract_all_pages_def)

lemma example_malformed_pages:
  "ebind (py_getitem (JObj example_malformed_items_document) ''pages'') py_iter =
     Inr [JObj [(''page_number'', JInt 1),
                (''categories'', JList [JObj [(''name_raw'', JStr ''Pizza'')]])],
          JObj [(''page_number'', JInt 2),
                (''categories'', JList [JStr ''not a category''])]]"
  by (simp add: example_malformed_items_document_def)

lemma example_Phase3_run:
  "run_coro (Phase3_extract_category_base example_env rn pn img c)
     (Response [Some ''{items}''] # rs) =
     Some (Inr [(''name_raw'', JStr ''Pizza''), (''category_items'', JList [])], 1, 0)"
proof -
  let ?U = "Phase3_unit example_env rn pn img c"
  let ?v = "[(''name_raw'', JStr ''Pizza''), (''category_items'', JList [])]"
  have p: "prompt ?U = Inr ''phase3.j2''" and m: "max_retries ?U = 2"
    and s: "response_schema ?U = CategoryBase" and r: "result ?U ?v = ?v"
    by (simp_all add: Phase3_unit_def phase3_prompt_def dict_get_def)
  from retry_step_success [where U = "?U" and p = "''phase3.j2''" and attempt = 0
      and E = example_env and r = "Response [Some ''{items}'']"
      and raw = "Some ''{items}''" and data = "JObj ?v" and validated = "?v"
      and le = None and rs = rs]
  show ?thesis
    by (simp add: p m s r response_content_def loads_def example_loads_def
        example_validate_def required_field_def Phase3_extract_category_base_def)
qed

lemma example_Phase3_prepare:
  "Phase3_prepare_page example_env [''image1'', ''image2'']
     (JObj [(''page_number'', JInt 1),
            (''categories'', JList [JObj [(''name_raw'', JStr ''Pizza'')]])]) =
     Inr (JInt 1, ''image1'', [[(''name_raw'', JStr ''Pizza'')]])"
  by (simp add: Phase3_prepare_page_def page_image_at_def list_index_def validated_list_def
      example_validate_def required_field_def)

lemma example_Phase4_prepare_short:
  "Phase4_prepare_page example_env [''image1'', ''image2'']
     (JObj [(''page_number'', JInt 1),
            (''categories'', JList [JObj [(''name_raw'', JStr ''Pizza'')]])],
      JObj [(''page_number'', JInt 1),
            (''categories'', JList
               [JObj [(''name_raw'', JStr ''Pasta''), (''base_price'', JInt 9)],
                JObj [(''name_raw'', JStr ''Pizza''), (''base_price'', JInt 8)]])]) =
     Inr (JInt 1, ''image1'', [[(''name_raw'', JStr ''Pizza'')]],
          [[(''name_raw'', JStr ''Pasta''), (''base_price'', JInt 9)],
           [(''name_raw'', JStr ''Pizza''), (''base_price'', JInt 8)]])"
  by (simp add: Phase4_prepare_page_def page_image_at_def list_index_def validated_list_def
      example_validate_def required_field_def)

text \<open>
  Claim C7 does not hold as stated for Stage 4.  The second page of this Stage 2 document
  holds a string where a category should be, which the schema rejects; the Stage 3
  document has one page.  Stage 4 pairs the pages by position and never reads the second
  page: it validates nothing on it, does not fail, and returns a document.
\<close>

theorem unpaired_page_not_validated_counterexample:
  "model_validate example_env CategoryWithItems (JStr ''not a category'') =
     Inl (ValidationError ''Input should be an object'')
   \<and> run_stage 4
       (Phase4_extract_all_pages example_env ''Roma'' example_malformed_items_document
          example_bases_document ''two.pdf'')
       [page_schedule
          [Phase4_extract_category_addons example_env ''Roma'' (JInt 1) ''image1''
             [(''name_raw'', JStr ''Pizza'')]
             [(''name_raw'', JStr ''Pasta''), (''base_price'', JInt 9)]]
          [[Response [Some ''{items}'']]]] =
     Some (Inr [(''restaurant_name'', JStr ''Roma''),
                (''pages'', JList
                   [JObj [(''page_number'', JInt 1),
                          (''categories'', JList
                             [JObj [(''name_raw'', JStr ''Pizza''),
                                    (''category_items'', JList [])]])]])],
           [])"
proof -
  let ?u = "Phase4_extract_category_addons example_env ''Roma'' (JInt 1) ''image1''
             [(''name_raw'', JStr ''Pizza'')]
             [(''name_raw'', JStr ''Pasta''), (''base_price'', JInt 9)]"
  let ?v = "[(''name_raw'', JStr ''Pizza''), (''category_items'', JList [])]"
  have g: "bounded_gather 4 [?u] (page_schedule [?u] [[Response [Some ''{items}'']]]) =
      Some (Inr [?v])"
    by (rule bounded_gather_page_schedule)
      (simp_all add: example_Phase4_run del: run_coro.simps)
  have "Phase4_extract_all_pages example_env ''Roma'' example_malformed_items_document
          example_bases_document ''two.pdf'' =
        Gather [?u] (\<lambda>rs. Done (document ''Roma'' [page_result (JInt 1) rs]))"
    by (simp add: Phase4_pages [OF _ example_malformed_pages example_bases_pages]
        example_images_def Phase4_page_def example_Phase4_prepare_short
        Phase4_extract_page_def)
  then show ?thesis
    by (simp add: g document_def page_result_def example_validate_def)
qed

text \<open>
  Claim C7, amended.  The drivers of Stages 2 to 4 validate their input page by page, at
  the moment the loop comes to a page and before any unit of that page is built: Stage 2
  validates the page's \<open>data\<close> against \<open>Categories\<close>, Stage 3 every category of the page
  against \<open>CategoryWithItems\<close>, Stage 4 every category of the Stage 2 page against
  \<open>CategoryWithItems\<close> and then every base of the Stage 3 page against \<open>CategoryBase\<close>.  In
  Stage 4 this concerns the pages that have a partner at the same position in the other
  document; pages beyond the shorter document are not read.

  Let page \<open>n\<close> be such a page, with a page number that has an image, and let the pages
  before it have been processed: they pass the checks and their units return.  If the
  validation of page \<open>n\<close> fails with \<open>e\<close> (in a list, at the first element that the schema
  rejects), then the stage fails with \<open>e\<close> once the fan-outs of the \<open>n\<close> pages before it
  have returned.  No fan-out is performed for page \<open>n\<close>: the events \<open>ss\<close> meant for later
  fan-outs are left untouched.
\<close>

theorem validation_failure_fails_stage:
  assumes "convert_to_images E pdf_path = Inr images" and "0 < max_concurrency"
    and "ebind (py_getitem (JObj payload) ''pages'') py_iter = Inr pages"
    and "ebind (py_getitem (JObj bases_payload) ''pages'') py_iter = Inr base_pages"
    and "n < length pages"
    and "py_getitem (pages ! n) ''page_number'' = Inr page_number"
    and "page_image_at images page_number = Inr img"
  shows "(py_getitem (pages ! n) ''data'' = Inr data \<and> validated_categories E data = Inl e \<and>
          (\<forall>p<n. \<exists>x. Phase2_prepare_page E images (pages ! p) = Inr x) \<and>
          pages_return (Phase2_page_units E rn images) pages n rsss vss \<longrightarrow>
          run_stage max_concurrency (Phase2_extract_all_pages E rn payload pdf_path)
            (pages_events (Phase2_page_units E rn images) pages n rsss @ ss) =
            Some (Inl e, ss))
       \<and> (ebind (py_getitem (pages ! n) ''categories'') py_iter = Inr cats \<and>
          j < length cats \<and> model_validate E CategoryWithItems (cats ! j) = Inl e \<and>
          (\<forall>i<j. \<exists>y. model_validate E CategoryWithItems (cats ! i) = Inr y) \<and>
          (\<forall>p<n. \<exists>x. Phase3_prepare_page E images (pages ! p) = Inr x) \<and>
          pages_return (Phase3_page_units E rn images) pages n rsss vss \<longrightarrow>
          run_stage max_concurrency (Phase3_extract_all_pages E rn payload pdf_path)
            (pages_events (Phase3_page_units E rn images) pages n rsss @ ss) =
            Some (Inl e, ss))
       \<and> (n < length base_pages \<and>
          ebind (py_getitem (pages ! n) ''categories'') py_iter = Inr cats \<and>
          j < length cats \<and> model_validate E CategoryWithItems (cats ! j) = Inl e \<and>
          (\<forall>i<j. \<exists>y. model_validate E CategoryWithItems (cats ! i) = Inr y) \<and>
          (\<forall>p<n. \<exists>x. Phase4_prepare_page E images (zip pages base_pages ! p) = Inr x) \<and>
          pages_return (Phase4_page_units E rn images) (zip pages base_pages) n rsss vss \<longrightarrow>
          run_stage max_concurrency
            (Phase4_extract_all_pages E rn payload bases_payload pdf_path)
            (pages_events (Phase4_page_units E rn images) (zip pages base_pages) n rsss @ ss) =
            Some (Inl e, ss))
       \<and> (n < length base_pages \<and>
          ebind (py_getitem (pages ! n) ''categories'') py_iter = Inr cats \<and>
          (\<forall>i<length cats. \<exists>y. model_validate E CategoryWithItems (cats ! i) = Inr y) \<and>
          ebind (py_getitem (base_pages ! n) ''categories'') py_iter = Inr bases \<and>
          j < length bases \<and> model_validate E CategoryBase (bases ! j) = Inl e \<and>
          (\<forall>i<j. \<exists>y. model_validate E CategoryBase (bases ! i) = Inr y) \<and>
          (\<forall>p<n. \<exists>x. Phase4_prepare_page E images (zip pages base_pages ! p) = Inr x) \<and>
          pages_return (Phase4_page_units E rn images) (zip pages base_pages) n rsss vss \<longrightarrow>
          run_stage max_concurrency
            (Phase4_extract_all_pages E rn payload bases_payload pdf_path)
            (pages_events (Phase4_page_units E rn images) (zip pages base_pages) n rsss @ ss) =
            Some (Inl e, ss))"
proof -
  have s2: "run_stage max_concurrency (Phase2_extract_all_pages E rn payload pdf_path)
            (pages_events (Phase2_page_units E rn images) pages n rsss @ ss) =
            Some (Inl e, ss)"
    if "py_getitem (pages ! n) ''data'' = Inr data" and "validated_categories E data = Inl e"
      and g: "\<forall>p<n. \<exists>x. Phase2_prepare_page E images (pages ! p) = Inr x"
      and r: "pages_return (Phase2_page_units E rn images) pages n rsss vss"
  proof -
    have bad: "Phase2_page E rn images (pages ! n) = Fail e"
      by (rule Phase2_page_Fail [OF assms(6,7) that(1,2)])
    from g have good: "\<forall>p<n. \<exists>fin. Phase2_page E rn images (pages ! p) =
        Gather (Phase2_page_units E rn images (pages ! p)) (\<lambda>rs. Done (fin rs))"
      using Phase2_page_Gather by blast
    from run_pages_loop_Fail_at [OF assms(2,5) bad good r] show ?thesis
      by (simp add: Phase2_pages [OF assms(1,3)])
  qed
  have s3: "run_stage max_concurrency (Phase3_extract_all_pages E rn payload pdf_path)
            (pages_events (Phase3_page_units E rn images) pages n rsss @ ss) =
            Some (Inl e, ss)"
    if c: "ebind (py_getitem (pages ! n) ''categories'') py_iter = Inr cats"
      and j: "j < length cats" "model_validate E CategoryWithItems (cats ! j) = Inl e"
        "\<forall>i<j. \<exists>y. model_validate E CategoryWithItems (cats ! i) = Inr y"
      and g: "\<forall>p<n. \<exists>x. Phase3_prepare_page E images (pages ! p) = Inr x"
      and r: "pages_return (Phase3_page_units E rn images) pages n rsss vss"
  proof -
    have bad: "Phase3_page E rn images (pages ! n) = Fail e"
      by (rule Phase3_page_Fail [OF assms(6,7) validated_list_Inl [OF c j]])
    from g have good: "\<forall>p<n. \<exists>fin. Phase3_page E rn images (pages ! p) =
        Gather (Phase3_page_units E rn images (pages ! p)) (\<lambda>rs. Done (fin rs))"
      using Phase3_page_Gather by blast
    from run_pages_loop_Fail_at [OF assms(2,5) bad good r] show ?thesis
      by (simp add: Phase3_pages [OF assms(1,3)])
  qed
  have s4: "run_stage max_concurrency
            (Phase4_extract_all_pages E rn payload bases_payload pdf_path)
            (pages_events (Phase4_page_units E rn images) (zip pages base_pages) n rsss @ ss) =
            Some (Inl e, ss)"
    if nb: "n < length base_pages"
      and bad: "Phase4_page E rn images (pages ! n, base_pages ! n) = Fail e"
      and g: "\<forall>p<n. \<exists>x. Phase4_prepare_page E images (zip pages base_pages ! p) = Inr x"
      and r: "pages_return (Phase4_page_units E rn images) (zip pages base_pages) n rsss vss"
  proof -
    from assms(5) nb have l: "n < length (zip pages base_pages)"
      by simp
    from assms(5) nb bad have bad': "Phase4_page E rn images (zip pages base_pages ! n) = Fail e"
      by simp
    from g have good: "\<forall>p<n. \<exists>fin. Phase4_page E rn images (zip pages base_pages ! p) =
        Gather (Phase4_page_units E rn images (zip pages base_pages ! p))
          (\<lambda>rs. Done (fin rs))"
      using Phase4_page_Gather by blast
    from run_pages_loop_Fail_at [OF assms(2) l bad' good r] show ?thesis
      by (simp add: Phase4_pages [OF assms(1,3,4)])
  qed
  have s4c: "run_stage max_concurrency
            (Phase4_extract_all_pages E rn payload bases_payload pdf_path)
            (pages_events (Phase4_page_units E rn images) (zip pages base_pages) n rsss @ ss) =
            Some (Inl e, ss)"
    if nb: "n < length base_pages"
      and c: "ebind (py_getitem (pages ! n) ''categories'') py_iter = Inr cats"
      and j: "j < length cats" "model_validate E CategoryWithItems (cats ! j) = Inl e"
        "\<forall>i<j. \<exists>y. model_validate E CategoryWithItems (cats ! i) = Inr y"
      and g: "\<forall>p<n. \<exists>x. Phase4_prepare_page E images (zip pages base_pages ! p) = Inr x"
      and r: "pages_return (Phase4_page_units E rn images) (zip pages base_pages) n rsss vss"
    by (rule s4 [OF nb Phase4_page_Fail_category [OF assms(6,7) validated_list_Inl [OF c j]]
          g r])
  have s4b: "run_stage max_concurrency
            (Phase4_extract_all_pages E rn payload bases_payload pdf_path)
            (pages_events (Phase4_page_units E rn images) (zip pages base_pages) n rsss @ ss) =
            Some (Inl e, ss)"
    if nb: "n < length base_pages"
      and c: "ebind (py_getitem (pages ! n) ''categories'') py_iter = Inr cats"
      and a: "\<forall>i<length cats. \<exists>y. model_validate E CategoryWithItems (cats ! i) = Inr y"
      and b: "ebind (py_getitem (base_pages ! n) ''categories'') py_iter = Inr bases"
      and j: "j < length bases" "model_validate E CategoryBase (bases ! j) = Inl e"
        "\<forall>i<j. \<exists>y. model_validate E CategoryBase (bases ! i) = Inr y"
      and g: "\<forall>p<n. \<exists>x. Phase4_prepare_page E images (zip pages base_pages ! p) = Inr x"
      and r: "pages_return (Phase4_page_units E rn images) (zip pages base_pages) n rsss vss"
  proof -
    from emap_all_Inr [OF a] obtain vc
      where "validated_list E CategoryWithItems (pages ! n) = Inr vc"
      by (auto simp: validated_list_eq [OF c])
    from s4 [OF nb Phase4_page_Fail_base [OF assms(6,7) this validated_list_Inl [OF b j]] g r]
    show ?thesis .
  qed
  from s2 s3 s4c s4b show ?thesis
    by blast
qed

theorem validation_failure_fails_stage_example:
  "run_stage 4
     (Phase3_extract_all_pages example_env ''Roma'' example_malformed_items_document ''two.pdf'')
     [page_schedule
        [Phase3_extract_category_base example_env ''Roma'' (JInt 1) ''image1''
           [(''name_raw'', JStr ''Pizza'')]]
        [[Response [Some ''{items}'']]]] =
     Some (Inl (ValidationError ''Input should be an object''), [])"
proof -
  let ?p = "JObj [(''page_number'', JInt 1),
                (''categories'', JList [JObj [(''name_raw'', JStr ''Pizza'')]])]"
  let ?q = "JObj [(''page_number'', JInt 2),
                (''categories'', JList [JStr ''not a category''])]"
  let ?v = "[(''name_raw'', JStr ''Pizza''), (''category_items'', JList [])]"
  let ?rsss = "[[[Response [Some ''{items}'']]]]"
  have u: "Phase3_page_units example_env ''Roma'' [''image1'', ''image2''] ?p =
      [Phase3_extract_category_base example_env ''Roma'' (JInt 1) ''image1''
         [(''name_raw'', JStr ''Pizza'')]]"
    by (simp add: Phase3_page_units_def example_Phase3_prepare)
  have h1: "convert_to_images example_env ''two.pdf'' = Inr [''image1'', ''image2'']"
    by (simp add: example_images_def)
  have h2: "(0::int) < 4"
    by simp
  have h5: "Suc 0 < length [?p, ?q]"
    by simp
  have h6: "py_getitem ([?p, ?q] ! Suc 0) ''page_number'' = Inr (JInt 2)"
    by simp
  have h7: "page_image_at [''image1'', ''image2''] (JInt 2) = Inr ''image2''"
    by (simp add: page_image_at_def list_index_def)
  have c1: "ebind (py_getitem ([?p, ?q] ! Suc 0) ''categories'') py_iter =
      Inr [JStr ''not a category'']"
    by simp
  have c2: "model_validate example_env CategoryWithItems ([JStr ''not a category''] ! 0) =
      Inl (ValidationError ''Input should be an object'')"
    by (simp add: example_validate_def)
  have c3: "\<forall>p<Suc 0. \<exists>x. Phase3_prepare_page example_env [''image1'', ''image2'']
      ([?p, ?q] ! p) = Inr x"
    by (simp add: example_Phase3_prepare)
  have c4: "pages_return (Phase3_page_units example_env ''Roma'' [''image1'', ''image2''])
      [?p, ?q] (Suc 0) ?rsss [[?v]]"
    by (simp add: pages_return_def u example_Phase3_run del: run_coro.simps)
  note t = validation_failure_fails_stage [OF h1 h2 example_malformed_pages
      example_malformed_pages h5 h6 h7,
      where cats = "[JStr ''not a category'']" and j = 0
        and e = "ValidationError ''Input should be an object''" and rn = "''Roma''"
        and rsss = ?rsss and vss = "[[?v]]" and ss = "[]"]
  from t [THEN conjunct2, THEN conjunct1] c1 c2 c3 c4 show ?thesis
    by (simp add: pages_events_def u)
qed

section \<open>The pages of the stage documents\<close>













end
